theory Spec2Isabelle
  imports Main
begin

section \<open>JavaScript strings\<close>

text \<open>
  A JavaScript string is modelled as a \<open>string\<close>: a list of code units, restricted to the
  code units below 256.  Positions are \<open>int\<close>, since the source passes negative and
  oversized positions to \<open>slice\<close>, \<open>charAt\<close> and the index operator, none of which throws.
\<close>

definition js_slice :: "string \<Rightarrow> int \<Rightarrow> int \<Rightarrow> string" where
  \<comment> \<open>\<open>s.slice(b, e)\<close>: a negative position counts from the end, both are clamped to the string.\<close>
  "js_slice s b e =
     (let len = int (length s);
          from = (if b < 0 then max (len + b) 0 else min b len);
          to = (if e < 0 then max (len + e) 0 else min e len)
      in take (nat (to - from)) (drop (nat from) s))"

definition js_index :: "string \<Rightarrow> int \<Rightarrow> char option" where
  \<comment> \<open>\<open>s[i]\<close>: \<open>undefined\<close> (here \<open>None\<close>) out of range.\<close>
  "js_index s i = (if 0 \<le> i \<and> i < int (length s) then Some (s ! nat i) else None)"

definition js_charAt :: "string \<Rightarrow> int \<Rightarrow> string" where
  \<comment> \<open>\<open>s.charAt(i)\<close>: the empty string out of range.\<close>
  "js_charAt s i = (if 0 \<le> i \<and> i < int (length s) then [s ! nat i] else [])"

definition startsWith :: "string \<Rightarrow> string \<Rightarrow> bool" where
  "startsWith s p \<longleftrightarrow> take (length p) s = p"

definition js_indexOf :: "string \<Rightarrow> string \<Rightarrow> int" where
  \<comment> \<open>\<open>s.indexOf(p)\<close>: the first position where \<open>p\<close> occurs, \<open>-1\<close> when it does not.\<close>
  "js_indexOf s p =
     (case find (\<lambda>i. startsWith (drop i s) p) [0..<Suc (length s)] of
        None \<Rightarrow> - 1
      | Some i \<Rightarrow> int i)"

fun js_split :: "char \<Rightarrow> string \<Rightarrow> string list" where
  \<comment> \<open>\<open>s.split(sep)\<close> for a separator of one code unit.\<close>
  "js_split sep [] = [[]]"
| "js_split sep (c # cs) =
     (if c = sep then [] # js_split sep cs
      else (case js_split sep cs of
              [] \<Rightarrow> [[c]]
            | w # ws \<Rightarrow> (c # w) # ws))"

section \<open>Regular expressions\<close>

text \<open>
  The three regular expressions of the source use character classes, concatenation,
  alternation and the star only.  They are modelled as terms of a datatype; a string is
  matched by taking derivatives.  Each of the two identRE expressions ends with \<open>$\<close>,
  so a match always runs to the end of the input, and \<open>exec\<close> returns the leftmost
  position from which the rest of the input is in the language.
\<close>

datatype regex =
    Cls "char \<Rightarrow> bool"
  | Lit string
  | Seq regex regex
  | Alt regex regex
  | Star regex

fun nullable :: "regex \<Rightarrow> bool" where
  "nullable (Cls P) = False"
| "nullable (Lit w) = (w = [])"
| "nullable (Seq r1 r2) = (nullable r1 \<and> nullable r2)"
| "nullable (Alt r1 r2) = (nullable r1 \<or> nullable r2)"
| "nullable (Star r) = True"

definition Never :: regex where
  "Never = Cls (\<lambda>c. False)"

fun deriv :: "char \<Rightarrow> regex \<Rightarrow> regex" where
  "deriv c (Cls P) = (if P c then Lit [] else Never)"
| "deriv c (Lit w) = (case w of [] \<Rightarrow> Never | d # ds \<Rightarrow> if c = d then Lit ds else Never)"
| "deriv c (Seq r1 r2) =
     (if nullable r1 then Alt (Seq (deriv c r1) r2) (deriv c r2) else Seq (deriv c r1) r2)"
| "deriv c (Alt r1 r2) = Alt (deriv c r1) (deriv c r2)"
| "deriv c (Star r) = Seq (deriv c r) (Star r)"

fun regex_matches :: "regex \<Rightarrow> string \<Rightarrow> bool" where
  "regex_matches r [] = nullable r"
| "regex_matches r (c # cs) = regex_matches (deriv c r) cs"

definition exec_to_end :: "regex \<Rightarrow> string \<Rightarrow> (nat \<times> string) option" where
  \<comment> \<open>\<open>/r$/.exec(s)\<close>: \<open>(re.index, re[0])\<close>, or \<open>None\<close> for \<open>null\<close>.\<close>
  "exec_to_end r s =
     (case find (\<lambda>i. regex_matches r (drop i s)) [0..<Suc (length s)] of
        None \<Rightarrow> None
      | Some i \<Rightarrow> Some (i, drop i s))"

definition inRange :: "char \<Rightarrow> char \<Rightarrow> char \<Rightarrow> bool" where
  "inRange lo hi c \<longleftrightarrow> (of_char lo :: nat) \<le> of_char c \<and> (of_char c :: nat) \<le> of_char hi"

definition idStart :: "char \<Rightarrow> bool" where
  \<comment> \<open>\<open>[_$a-zA-Z]\<close>\<close>
  "idStart c \<longleftrightarrow> c = CHR ''_'' \<or> c = CHR ''$'' \<or> inRange CHR ''a'' CHR ''z'' c
     \<or> inRange CHR ''A'' CHR ''Z'' c"

definition idPart :: "char \<Rightarrow> bool" where
  \<comment> \<open>\<open>[_$a-zA-Z0-9]\<close>\<close>
  "idPart c \<longleftrightarrow> c = CHR ''_'' \<or> c = CHR ''$'' \<or> inRange CHR ''a'' CHR ''z'' c
     \<or> inRange CHR ''A'' CHR ''Z'' c \<or> inRange CHR ''0'' CHR ''9'' c"

definition dot :: "char \<Rightarrow> bool" where
  \<comment> \<open>\<open>.\<close>: any code unit but a line terminator.\<close>
  "dot c \<longleftrightarrow> c \<noteq> CHR 0x0A \<and> c \<noteq> CHR 0x0D"

definition whitespace :: "char \<Rightarrow> bool" where
  \<comment> \<open>\<open>\s\<close>, on the code units below 256.\<close>
  "whitespace c \<longleftrightarrow> c \<in> {CHR 0x09, CHR 0x0A, CHR 0x0B, CHR 0x0C, CHR 0x0D, CHR 0x20, CHR 0xA0}"

definition identRE :: regex where
  \<comment> \<open>\<open>[_$a-zA-Z][_$a-zA-Z0-9]*\<close>\<close>
  "identRE = Seq (Cls idStart) (Star (Cls idPart))"

definition simpleIdentifierRE :: regex where
  \<comment> \<open>\<open>/[_$a-zA-Z][_$a-zA-Z0-9]*$/\<close>\<close>
  "simpleIdentifierRE = identRE"

definition complexIdentifierRE :: regex where
  \<comment> \<open>\<open>/ID(?:ID|\.ID|\[".*"\]|\['.*'\])*$/\<close> with \<open>ID = [_$a-zA-Z][_$a-zA-Z0-9]*\<close>\<close>
  "complexIdentifierRE =
     Seq identRE
       (Star (Alt identRE
             (Alt (Seq (Lit ''.'') identRE)
             (Alt (Seq (Lit [CHR ''['', CHR 0x22]) (Seq (Star (Cls dot)) (Lit [CHR 0x22, CHR '']''])))
                  (Seq (Lit [CHR ''['', CHR 0x27]) (Seq (Star (Cls dot)) (Lit [CHR 0x27, CHR '']''])))))))"

section \<open>The expression parser\<close>

record expression =
  matchedText :: string
  scope :: string
  leftOp :: string
  selector :: string
  rightOp :: string

definition parseScope ::
  "string \<Rightarrow> int \<Rightarrow> string \<Rightarrow> string \<Rightarrow> string \<Rightarrow> string \<Rightarrow> expression option" where
  \<comment> \<open>The end of \<open>parseExpression\<close>, from \<open>var scope\<close> on; \<open>None\<close> is the source's \<open>null\<close>.\<close>
  "parseScope code cursorPos expr lop sel rop =
     (case exec_to_end complexIdentifierRE expr of
        Some (idx, m) \<Rightarrow>
          Some \<lparr>matchedText = js_slice code (int idx) cursorPos, scope = m,
                leftOp = lop, selector = sel, rightOp = rop\<rparr>
      | None \<Rightarrow>
          if lop = [] then
            Some \<lparr>matchedText = js_slice code (int (length expr)) cursorPos, scope = [],
                  leftOp = lop, selector = sel, rightOp = rop\<rparr>
          else None)"

definition parseExpression :: "string \<Rightarrow> int \<Rightarrow> expression option" where
  "parseExpression code cursorPos =
     (let expr0 = js_slice code 0 cursorPos in
      if expr0 = [] \<or> whitespace (last expr0) then
        Some \<lparr>matchedText = [], scope = [], leftOp = [], selector = [], rightOp = []\<rparr>
      else
        let (sel, expr) =
              (case exec_to_end simpleIdentifierRE expr0 of
                 None \<Rightarrow> ([], expr0)
               | Some (idx, m) \<Rightarrow> (m, js_slice expr0 0 (int idx)));
            n = int (length expr)
        in
          if js_index expr (n - 1) = Some CHR ''.'' then
            parseScope code cursorPos (js_slice expr 0 (n - 1)) ''.'' sel []
          else if js_index expr (n - 2) = Some CHR ''['' \<and> js_index expr (n - 1) = Some (CHR 0x22) then
            parseScope code cursorPos (js_slice expr 0 (n - 2))
              [CHR ''['', CHR 0x22] sel [CHR 0x22, CHR '']'']
          else if js_index expr (n - 2) = Some CHR ''['' \<and> js_index expr (n - 1) = Some (CHR 0x27) then
            parseScope code cursorPos (js_slice expr 0 (n - 2))
              [CHR ''['', CHR 0x27] sel [CHR 0x27, CHR '']'']
          else
            Some \<lparr>matchedText = js_slice code (int (length expr)) cursorPos, scope = [],
                  leftOp = [], selector = sel, rightOp = []\<rparr>)"

section \<open>Completion: the success callback of \<open>complete\<close>\<close>

text \<open>
  An element of the array \<open>matchList\<close> is a string, or \<open>undefined\<close> when a reply
  carried no \<open>names\<close> (\<open>[].concat(undefined)\<close> is \<open>[undefined]\<close>).
\<close>

datatype jsval = JString string | JUndefined

datatype js_error = ReferenceError | TypeError

record completion =
  c_list :: "jsval list"
  c_code :: string
  c_cursorPos :: int
  c_matchedText :: string
  c_cursorStart :: int
  c_cursorEnd :: int

definition javascriptKeywords :: "string list" where
  "javascriptKeywords =
     [''break'', ''case'', ''catch'', ''continue'', ''debugger'', ''default'',
      ''delete'', ''do'', ''else'', ''finally'', ''for'', ''function'', ''if'',
      ''in'', ''instanceof'', ''new'', ''return'', ''switch'', ''this'',
      ''throw'', ''try'', ''typeof'', ''var'', ''void'', ''while'', ''with'',
      ''class'', ''const'', ''enum'', ''export'', ''extends'', ''import'',
      ''super'',
      ''implements'', ''interface'', ''let'', ''package'', ''private'',
      ''protected'', ''public'', ''static'', ''yield'',
      ''null'',
      ''true'', ''false'']"

fun toText :: "jsval \<Rightarrow> string" where
  \<comment> \<open>the string a value becomes under \<open>+\<close>\<close>
  "toText (JString w) = w"
| "toText JUndefined = ''undefined''"

fun hasPrefix :: "string \<Rightarrow> jsval \<Rightarrow> bool" where
  \<comment> \<open>\<open>e.lastIndexOf(selector, 0) === 0\<close>, for a string \<open>e\<close>\<close>
  "hasPrefix p (JString w) = startsWith w p"
| "hasPrefix p JUndefined = False"

fun shorter :: "string \<Rightarrow> jsval \<Rightarrow> string" where
  \<comment> \<open>\<open>p.length <= c.length ? p : c\<close>, for strings\<close>
  "shorter p (JString c) = (if length p \<le> length c then p else c)"
| "shorter p JUndefined = p"

function advanceCursor :: "string \<Rightarrow> string \<Rightarrow> nat \<Rightarrow> int \<Rightarrow> int" where
  \<comment> \<open>the \<open>for\<close> loop of lines 815-819: the value of \<open>cursorEnd\<close> when it ends\<close>
  "advanceCursor shortestMatch code i cursorEnd =
     (if i < length shortestMatch \<and> cursorEnd < int (length code) then
        if js_charAt shortestMatch (int i) \<noteq> js_charAt code cursorEnd then cursorEnd
        else advanceCursor shortestMatch code (Suc i) (cursorEnd + 1)
      else cursorEnd)"
  by pat_completeness auto
termination
  by (relation "measure (\<lambda>(shortestMatch, code, i, cursorEnd). length shortestMatch - i)") auto

definition completionOf ::
  "string \<Rightarrow> int \<Rightarrow> expression \<Rightarrow> jsval list \<Rightarrow> string list option
     \<Rightarrow> jsval list \<times> (js_error + completion)" where
  \<comment> \<open>Lines 781-837: from the closure variable \<open>matchList\<close> and \<open>result.names\<close> to the new
      \<open>matchList\<close> and the completion handed to \<open>callbacks.onSuccess\<close>.  A method call on
      \<open>undefined\<close> throws a TypeError.\<close>
  "completionOf code cursorPos ex matchList0 names =
     (let matchList1 = matchList0 @ (case names of None \<Rightarrow> [JUndefined] | Some ns \<Rightarrow> map JString ns);
          matchList2 = (if scope ex = [] then matchList1 @ map JString javascriptKeywords
                        else matchList1)
      in
      if selector ex \<noteq> [] \<and> JUndefined \<in> set matchList2 then (matchList2, Inl TypeError)
      else
        let matchList3 = (if selector ex \<noteq> [] then filter (hasPrefix (selector ex)) matchList2
                          else matchList2);
            left = scope ex @ leftOp ex;
            right = rightOp ex;
            matchList4 = (if \<not> (left = [] \<and> right = [])
                          then map (\<lambda>e. JString (left @ toText e @ right)) matchList3
                          else matchList3)
        in
        (case matchList4 of
           [] \<Rightarrow>
             (matchList4,
              Inr \<lparr>c_list = matchList4, c_code = code, c_cursorPos = cursorPos,
                   c_matchedText = matchedText ex,
                   c_cursorStart = cursorPos, c_cursorEnd = cursorPos\<rparr>)
         | e # es \<Rightarrow>
             if JUndefined \<in> set matchList4 then (matchList4, Inl TypeError)
             else
               let shortestMatch = foldl shorter (toText e) es;
                   cursorStart = js_indexOf code (matchedText ex)
               in
               (matchList4,
                Inr \<lparr>c_list = matchList4, c_code = code, c_cursorPos = cursorPos,
                     c_matchedText = matchedText ex,
                     c_cursorStart = cursorStart,
                     c_cursorEnd = advanceCursor shortestMatch code 0 cursorStart\<rparr>)))"

section \<open>Messages, tasks and the session\<close>

datatype action = Run | GetAllPropertyNames | Inspect

datatype traceback_value = TracebackLines "string list" | TracebackText string

record error_info =
  ename :: string
  evalue :: string
  traceback :: traceback_value

record documentation =
  description :: string
  usage :: "string option"
  url :: string

text \<open>
  What \<open>doc[name]\<close> can be: a documentation object, when \<open>name\<close> is a key of the dictionary
  of \<open>mdn.js\<close>, or the member \<open>name\<close> that the dictionary, an object, inherits from
  \<open>Object.prototype\<close>.
\<close>

datatype doc_value = Documentation documentation | Inherited string

record inspection =
  insp_code :: "string option"
  insp_cursorPos :: "int option"
  insp_matchedText :: "string option"
  insp_string :: string
  insp_type :: string
  constructorList :: "string list option"
  insp_length :: "int option"

text \<open>
  A message is an object whose properties may each be absent (\<open>None\<close>); a property that
  is present has the type the source documents for it.  \<open>msg_end\<close> is the truth value of
  \<open>message.end\<close>.  \<open>msg_doc\<close> is the property \<open>doc\<close> that \<open>inspect\<close>
  attaches to a reply before it hands it to the caller.
\<close>

record message =
  msg_id :: "nat option"
  msg_end :: bool
  msg_log :: "string option"
  msg_stdout :: "string option"
  msg_stderr :: "string option"
  msg_error :: "error_info option"
  msg_mime :: "(string \<times> string) list option"
  msg_names :: "string list option"
  msg_inspection :: "inspection option"
  msg_doc :: "doc_value option"

definition emptyMessage :: message where
  "emptyMessage =
     \<lparr>msg_id = None, msg_end = False, msg_log = None, msg_stdout = None, msg_stderr = None,
      msg_error = None, msg_mime = None, msg_names = None, msg_inspection = None,
      msg_doc = None\<rparr>"

text \<open>
  The \<open>callbacks\<close> object of a caller.  A function of the caller is a handle (a number):
  the model records that it was invoked and with what.  It assumes that such a function
  returns normally and does not call into the session.
\<close>

record callbacks =
  cb_onSuccess :: "nat option"
  cb_onError :: "nat option"
  cb_beforeRun :: "nat option"
  cb_afterRun :: "nat option"
  cb_onStdout :: "nat option"
  cb_onStderr :: "nat option"

text \<open>
  \<open>task.onSuccess\<close> is a function of the caller (\<open>execute\<close>), or one of the three closures
  that \<open>complete\<close> and \<open>inspect\<close> build.  A closure carries the variables it reads; the
  variables it assigns (\<open>matchList\<close>, \<open>inspectionResult\<close>) live in the session state under
  the address that is the closure's first component.
\<close>

datatype handler =
    UserFn nat
  | CompleteFn nat string int "callbacks option" expression
  | InspectFn nat string int "callbacks option" expression
  | InspectDocFn nat "callbacks option" expression

text \<open>
  A task object.  \<open>ref\<close> is its identity: \<open>task === this._currentTask\<close> compares it.
\<close>

record task =
  ref :: nat
  action :: action
  code :: string
  onSuccess :: "handler option"
  onError :: "nat option"
  beforeRun :: "nat option"
  afterRun :: "nat option"
  onStdout :: "nat option"
  onStderr :: "nat option"

text \<open>
  What a \<open>catch\<close> block can see of a thrown value: whether it is truthy, its \<open>typeof\<close>, and
  its properties \<open>name\<close>, \<open>message\<close> and \<open>stack\<close> (\<open>None\<close> when absent).
\<close>

record thrown =
  thr_truthy :: bool
  thr_typeof :: string
  thr_name :: "string option"
  thr_message :: "string option"
  thr_stack :: "string option"

type_synonym transpiler = "string \<Rightarrow> thrown + string"

datatype stdio = StdioInherit | StdioIgnore

text \<open>The configuration objects \<open>nelConfig\<close> and \<open>this._config\<close>: each property may be absent.\<close>

record config =
  cfg_cwd :: "string option"
  cfg_transpile :: "transpiler option"
  cfg_stdio :: "stdio option"

datatype role =
  OnSuccess | OnError | BeforeRun | AfterRun | OnStdout | OnStderr | KillCB | RestartCB

datatype arg =
    NoArg
  | TextArg string
  | MessageArg message
  | CompletionArg completion
  | ExitArg "int option" "string option"

text \<open>
  What the session does to the outside, in order.  \<open>Accepted\<close>, \<open>Dispatched\<close> and \<open>Released\<close>
  are history events the source does not produce: \<open>Accepted r\<close> marks that \<open>_run\<close> took task
  \<open>r\<close> (the place of its \<open>log\<close> call, line 602), \<open>Dispatched r i\<close> that \<open>_runNow\<close> put task \<open>r\<close>
  in \<open>_currentTask\<close> and gave it the context id \<open>i\<close> (lines 618-622), \<open>Released r e\<close> that
  \<open>_onMessage\<close> cleared \<open>_currentTask\<close>, which held task \<open>r\<close> (line 583), while routing a
  message whose end flag was \<open>e\<close>.
\<close>

datatype effect =
    Accepted nat
  | Dispatched nat nat
  | Released nat bool
  | Sent action string nat
  | Invoked role nat arg
  | Forked "string option" "stdio option"
  | Signalled string

datatype exit_listener = KillFn "nat option" | RestartFn "nat option"

text \<open>
  The session object (the first nine fields, named as in the source without the leading
  underscore) and its environment: the global \<open>DEBUG\<close>, the documentation dictionary of
  \<open>mdn.js\<close> (its own keys; not part of the sources: a parameter), the closure variables, the
  next free address, whether \<open>_onMessage\<close> listens to the server, the listener for the server's
  \<open>exit\<close>, and the effects so far.
\<close>

record session =
  transpile :: "transpiler option"
  tasks :: "task list"
  currentTask :: "task option"
  contextTable :: "nat \<Rightarrow> task option"
  lastContextId :: nat
  lastTask :: "task option"
  config :: config
  server :: nat
  killed :: bool
  DEBUG :: bool
  mdn :: "string \<Rightarrow> documentation option"
  matchList :: "nat \<Rightarrow> jsval list"
  inspectionResult :: "nat \<Rightarrow> message option"
  nextRef :: nat
  listening :: bool
  exitListener :: "exit_listener option"
  effects :: "effect list"

text \<open>
  A call returns, or throws with the state as the throw left it.
\<close>

datatype outcome = Normal session | Throws js_error session

fun state_of :: "outcome \<Rightarrow> session" where
  "state_of (Normal s) = s"
| "state_of (Throws e s) = s"

definition truthy :: "string option \<Rightarrow> bool" where
  \<comment> \<open>the truth value of a property that is a string when present\<close>
  "truthy v = (case v of None \<Rightarrow> False | Some w \<Rightarrow> w \<noteq> [])"

definition emit :: "effect \<Rightarrow> session \<Rightarrow> session" where
  "emit e s = s\<lparr>effects := effects s @ [e]\<rparr>"

definition callFn :: "role \<Rightarrow> nat option \<Rightarrow> arg \<Rightarrow> session \<Rightarrow> session" where
  \<comment> \<open>\<open>if (f) f(a)\<close> for a function of the caller\<close>
  "callFn r f a s = (case f of None \<Rightarrow> s | Some g \<Rightarrow> emit (Invoked r g a) s)"

definition pick :: "callbacks option \<Rightarrow> (callbacks \<Rightarrow> nat option) \<Rightarrow> nat option" where
  \<comment> \<open>\<open>if (callbacks) { if (callbacks.f) task.f = callbacks.f }\<close>\<close>
  "pick cbs f = (case cbs of None \<Rightarrow> None | Some cb \<Rightarrow> f cb)"

section \<open>Documentation lookup\<close>

definition letter :: "char \<Rightarrow> bool" where
  \<comment> \<open>\<open>[a-zA-Z]\<close>\<close>
  "letter c \<longleftrightarrow> inRange CHR ''a'' CHR ''z'' c \<or> inRange CHR ''A'' CHR ''Z'' c"

definition replaceFamily :: "string \<Rightarrow> string \<Rightarrow> string \<Rightarrow> string" where
  \<comment> \<open>\<open>name.replace(/^[a-zA-Z]+W./, R)\<close> for a word \<open>W\<close>: the greedy \<open>+\<close> takes the longest
      run of letters after which \<open>W\<close> and one more code unit (not a line terminator) follow.\<close>
  "replaceFamily w r name =
     (case find (\<lambda>k. startsWith (drop k name) w
                     \<and> (case drop (k + length w) name of [] \<Rightarrow> False | c # cs \<Rightarrow> dot c))
             (rev [1..<Suc (length (takeWhile letter name))]) of
        None \<Rightarrow> name
      | Some k \<Rightarrow> r @ drop (k + length w + 1) name)"

definition objectPrototype :: "string list" where
  \<comment> \<open>the names of the members of \<open>Object.prototype\<close>\<close>
  "objectPrototype =
     [''constructor'', ''__defineGetter__'', ''__defineSetter__'', ''hasOwnProperty'',
      ''__lookupGetter__'', ''__lookupSetter__'', ''isPrototypeOf'', ''propertyIsEnumerable'',
      ''toString'', ''valueOf'', ''__proto__'', ''toLocaleString'']"

definition docMember :: "(string \<Rightarrow> documentation option) \<Rightarrow> string \<Rightarrow> doc_value option" where
  \<comment> \<open>\<open>doc[name]\<close> when \<open>name in doc\<close>, \<open>None\<close> when not: \<open>in\<close> finds the keys of the dictionary
      and the members it inherits\<close>
  "docMember dict name =
     (case dict name of
        Some d \<Rightarrow> Some (Documentation d)
      | None \<Rightarrow> if name \<in> set objectPrototype then Some (Inherited name) else None)"

definition getDocumentation ::
  "(string \<Rightarrow> documentation option) \<Rightarrow> string \<Rightarrow> doc_value option" where
  "getDocumentation dict name =
     (case docMember dict name of
        Some d \<Rightarrow> Some d
      | None \<Rightarrow>
          (case docMember dict (replaceFamily ''Error'' ''Error.'' name) of
             Some d \<Rightarrow> Some d
           | None \<Rightarrow> docMember dict (replaceFamily ''Array'' ''TypedArray.'' name)))"

section \<open>The scheduler and the router\<close>

definition newContext :: "task \<Rightarrow> session \<Rightarrow> session" where
  \<comment> \<open>\<open>_runNow\<close>, lines 618-626\<close>
  "newContext t s =
     (let s1 = s\<lparr>currentTask := Some t\<rparr>;
          s2 = s1\<lparr>lastContextId := lastContextId s1 + 1\<rparr>;
          s3 = s2\<lparr>lastTask := currentTask s2\<rparr>;
          s4 = s3\<lparr>contextTable := (contextTable s3)(lastContextId s3 := lastTask s3)\<rparr>;
          s5 = emit (Dispatched (ref t) (lastContextId s4)) s4
      in callFn BeforeRun (beforeRun t) NoArg s5)"

definition setCode :: "string \<Rightarrow> task \<Rightarrow> session \<Rightarrow> session" where
  \<comment> \<open>\<open>this._lastTask.code = transpiledCode\<close>: the task just dispatched is one object, held
      by \<open>_currentTask\<close>, \<open>_lastTask\<close> and the context table\<close>
  "setCode c t s =
     s\<lparr>currentTask := Some (t\<lparr>code := c\<rparr>), lastTask := Some (t\<lparr>code := c\<rparr>),
       contextTable := (contextTable s)(lastContextId s := Some (t\<lparr>code := c\<rparr>))\<rparr>"

definition send :: "task \<Rightarrow> session \<Rightarrow> session" where
  \<comment> \<open>\<open>_runNow\<close>, lines 649-651\<close>
  "send t s = emit (Sent (action t) (code t) (lastContextId s)) s"

definition present :: "thrown \<Rightarrow> (thrown \<Rightarrow> string option) \<Rightarrow> string option" where
  \<comment> \<open>\<open>error && error.p\<close>, when it is truthy\<close>
  "present error p =
     (if thr_truthy error then
        (case p error of None \<Rightarrow> None | Some w \<Rightarrow> if w = [] then None else Some w)
      else None)"

definition synthesize :: "thrown \<Rightarrow> js_error + message" where
  \<comment> \<open>The object literal of lines 635-644.  The module never binds \<open>util\<close> (it requires
      console, fs, path, child_process and mdn.js only), so evaluating \<open>util.inspect(error)\<close>
      throws a ReferenceError.\<close>
  "synthesize error =
     (let ename' = (case present error thr_name of Some w \<Rightarrow> w | None \<Rightarrow> thr_typeof error) in
      case present error thr_message of
        None \<Rightarrow> Inl ReferenceError
      | Some evalue' \<Rightarrow>
          Inr (emptyMessage\<lparr>msg_error :=
                 Some \<lparr>ename = ename', evalue = evalue',
                       traceback = (case present error thr_stack of
                                      Some w \<Rightarrow> TracebackLines (js_split (CHR 0x0A) w)
                                    | None \<Rightarrow> TracebackText [])\<rparr>\<rparr>))"

datatype dispatch = Finished outcome | Reply message session

definition runNow_body :: "task \<Rightarrow> session \<Rightarrow> dispatch" where
  \<comment> \<open>\<open>_runNow\<close> up to its call of \<open>_onMessage\<close> in the \<open>catch\<close> block: \<open>Reply m s\<close> stands for
      \<open>this._onMessage(m); return\<close> in state \<open>s\<close>.\<close>
  "runNow_body t s =
     (let s1 = newContext t s in
      case transpile s1 of
        None \<Rightarrow> Finished (Normal (send t s1))
      | Some f \<Rightarrow>
          if action t = Run then
            (case f (code t) of
               Inr transpiledCode \<Rightarrow>
                 Finished (Normal (send (t\<lparr>code := transpiledCode\<rparr>) (setCode transpiledCode t s1)))
             | Inl error \<Rightarrow>
                 (case synthesize error of
                    Inl e \<Rightarrow> Finished (Throws e s1)
                  | Inr m \<Rightarrow> Reply m s1))
          else Finished (Normal (send t s1)))"

definition runLater :: "task \<Rightarrow> session \<Rightarrow> session" where
  "runLater t s = s\<lparr>tasks := tasks s @ [t]\<rparr>"

definition run_inspect :: "task \<Rightarrow> session \<Rightarrow> session" where
  \<comment> \<open>\<open>_run\<close> as the closure of \<open>inspect\<close> calls it, on a task whose action is "inspect":
      \<open>_runNow\<close> skips the transpile block (line 628) for it.\<close>
  "run_inspect t s =
     (if killed s then s
      else
        let s1 = emit (Accepted (ref t)) s in
        if currentTask s1 = None then send t (newContext t s1) else runLater t s1)"

definition completeOnSuccess ::
  "nat \<Rightarrow> string \<Rightarrow> int \<Rightarrow> callbacks option \<Rightarrow> expression \<Rightarrow> message \<Rightarrow> session \<Rightarrow> outcome" where
  \<comment> \<open>the closure of \<open>complete\<close>, lines 780-840\<close>
  "completeOnSuccess a code' cursorPos cbs ex result s =
     (case completionOf code' cursorPos ex (matchList s a) (msg_names result) of
        (ml, r) \<Rightarrow>
          (let s1 = s\<lparr>matchList := (matchList s)(a := ml)\<rparr> in
           case r of
             Inl e \<Rightarrow> Throws e s1
           | Inr c \<Rightarrow> Normal (callFn OnSuccess (pick cbs cb_onSuccess) (CompletionArg c) s1)))"

definition inspectOnSuccess ::
  "nat \<Rightarrow> string \<Rightarrow> int \<Rightarrow> callbacks option \<Rightarrow> expression \<Rightarrow> message \<Rightarrow> session \<Rightarrow> outcome" where
  \<comment> \<open>the first closure of \<open>inspect\<close>, lines 910-917, with
      \<open>getDocumentationAndInvokeCallbacks\<close>, lines 923-990\<close>
  "inspectOnSuccess a code' cursorPos cbs ex result s =
     (case msg_inspection result of
        None \<Rightarrow> Throws TypeError (s\<lparr>inspectionResult := (inspectionResult s)(a := Some result)\<rparr>)
      | Some i \<Rightarrow>
          (let r1 = result\<lparr>msg_inspection :=
                     Some (i\<lparr>insp_code := Some code', insp_cursorPos := Some cursorPos,
                             insp_matchedText := Some (matchedText ex)\<rparr>)\<rparr>
           in
           if scope ex = [] then
             (let r2 = (case getDocumentation (mdn s) (matchedText ex) of
                          None \<Rightarrow> r1
                        | Some d \<Rightarrow> r1\<lparr>msg_doc := Some d\<rparr>);
                  s1 = s\<lparr>inspectionResult := (inspectionResult s)(a := Some r2)\<rparr>
              in Normal (callFn AfterRun (pick cbs cb_afterRun) NoArg
                          (callFn OnSuccess (pick cbs cb_onSuccess) (MessageArg r2) s1)))
           else
             (let s1 = s\<lparr>inspectionResult := (inspectionResult s)(a := Some r1)\<rparr>;
                  t = \<lparr>ref = nextRef s1, action = Inspect, code = scope ex,
                       onSuccess = Some (InspectDocFn a cbs ex),
                       onError = pick cbs cb_onError, beforeRun = None,
                       afterRun = pick cbs cb_afterRun,
                       onStdout = pick cbs cb_onStdout, onStderr = pick cbs cb_onStderr\<rparr>
              in Normal (run_inspect t (s1\<lparr>nextRef := nextRef s1 + 1\<rparr>)))))"

definition inspectDocOnSuccess ::
  "nat \<Rightarrow> callbacks option \<Rightarrow> expression \<Rightarrow> message \<Rightarrow> session \<Rightarrow> outcome" where
  \<comment> \<open>the second closure of \<open>inspect\<close>, lines 967-987\<close>
  "inspectDocOnSuccess a cbs ex result s =
     (case msg_inspection result of
        None \<Rightarrow> Throws TypeError s
      | Some i \<Rightarrow>
          (case (case constructorList i of
                   None \<Rightarrow> None
                 | Some names \<Rightarrow>
                     find (\<lambda>d. d \<noteq> None)
                       (map (\<lambda>constructorName.
                               getDocumentation (mdn s)
                                 (constructorName @ ''.prototype.'' @ selector ex)) names)) of
             Some (Some d) \<Rightarrow>
               (case inspectionResult s a of
                  None \<Rightarrow> Throws TypeError s
                | Some r \<Rightarrow>
                    (let r' = r\<lparr>msg_doc := Some d\<rparr>;
                         s1 = s\<lparr>inspectionResult := (inspectionResult s)(a := Some r')\<rparr>
                     in Normal (callFn OnSuccess (pick cbs cb_onSuccess) (MessageArg r') s1)))
           | _ \<Rightarrow>
               Normal (callFn OnSuccess (pick cbs cb_onSuccess)
                         (case inspectionResult s a of None \<Rightarrow> NoArg | Some r \<Rightarrow> MessageArg r) s)))"

fun invokeOnSuccess :: "handler \<Rightarrow> message \<Rightarrow> session \<Rightarrow> outcome" where
  \<comment> \<open>\<open>task.onSuccess(message)\<close>\<close>
  "invokeOnSuccess (UserFn f) m s = Normal (emit (Invoked OnSuccess f (MessageArg m)) s)"
| "invokeOnSuccess (CompleteFn a code' cursorPos cbs ex) m s =
     completeOnSuccess a code' cursorPos cbs ex m s"
| "invokeOnSuccess (InspectFn a code' cursorPos cbs ex) m s =
     inspectOnSuccess a code' cursorPos cbs ex m s"
| "invokeOnSuccess (InspectDocFn a cbs ex) m s = inspectDocOnSuccess a cbs ex m s"

definition lookupTask :: "nat option \<Rightarrow> session \<Rightarrow> task option" where
  \<comment> \<open>lines 515-528: \<open>this._contextTable[contextId]\<close>, else \<open>this._lastTask\<close>\<close>
  "lookupTask contextId s =
     (case (case contextId of None \<Rightarrow> None | Some i \<Rightarrow> contextTable s i) of
        Some t \<Rightarrow> Some t
      | None \<Rightarrow> lastTask s)"

definition deleteContext :: "nat option \<Rightarrow> session \<Rightarrow> session" where
  \<comment> \<open>\<open>delete this._contextTable[contextId]\<close>\<close>
  "deleteContext contextId s =
     (case contextId of
        None \<Rightarrow> s
      | Some i \<Rightarrow> s\<lparr>contextTable := (contextTable s)(i := None)\<rparr>)"

datatype routing = Routed outcome | Next task session

definition finish :: "task \<Rightarrow> nat option \<Rightarrow> bool \<Rightarrow> session \<Rightarrow> routing" where
  \<comment> \<open>\<open>_onMessage\<close>, lines 565-588, up to its call of \<open>_runNow\<close>: \<open>Next t s\<close> stands for
      \<open>this._runNow(t)\<close> in state \<open>s\<close>, with \<open>t\<close> shifted off the queue.\<close>
  "finish t contextId endMessage s =
     (let s1 = (if endMessage then callFn AfterRun (afterRun t) NoArg (deleteContext contextId s)
                else s)
      in
      if Some (ref t) = map_option ref (currentTask s1) then
        (let s2 = emit (Released (ref t) endMessage) (s1\<lparr>currentTask := None\<rparr>) in
         case tasks s2 of
           [] \<Rightarrow> Routed (Normal s2)
         | next_task # rest \<Rightarrow> Next next_task (s2\<lparr>tasks := rest\<rparr>))
      else Routed (Normal s1))"

definition deliver :: "task \<Rightarrow> message \<Rightarrow> session \<Rightarrow> outcome" where
  \<comment> \<open>\<open>_onMessage\<close>, lines 550-563: error and success messages\<close>
  "deliver t message s =
     (case msg_error message of
        Some e \<Rightarrow> Normal (callFn OnError (onError t) (MessageArg message) s)
      | None \<Rightarrow>
          (case onSuccess t of
             None \<Rightarrow> Normal s
           | Some h \<Rightarrow> invokeOnSuccess h message s))"

definition onMessage_body :: "message \<Rightarrow> session \<Rightarrow> routing" where
  \<comment> \<open>\<open>_onMessage\<close>, lines 498-588\<close>
  "onMessage_body message0 s =
     (let contextId = msg_id message0;
          endMessage = msg_end message0;
          message = message0\<lparr>msg_id := None, msg_end := False\<rparr>
      in
      if truthy (msg_log message) then Routed (Normal s)
      else
        (case lookupTask contextId s of
           None \<Rightarrow> Routed (Normal s)
         | Some t \<Rightarrow>
             if truthy (msg_stdout message) then
               Routed (Normal (callFn OnStdout (onStdout t)
                                 (TextArg (case msg_stdout message of Some w \<Rightarrow> w | None \<Rightarrow> [])) s))
             else if truthy (msg_stderr message) then
               Routed (Normal (callFn OnStderr (onStderr t)
                                 (TextArg (case msg_stderr message of Some w \<Rightarrow> w | None \<Rightarrow> [])) s))
             else
               (case deliver t message s of
                  Throws e s1 \<Rightarrow> Routed (Throws e s1)
                | Normal s1 \<Rightarrow> finish t contextId endMessage s1)))"

subsection \<open>The queue bounds the mutual recursion of \<open>_onMessage\<close> and \<open>_runNow\<close>\<close>

lemma tasks_emit: "tasks (emit e s) = tasks s"
  by (simp add: emit_def)

lemma tasks_callFn: "tasks (callFn r f a s) = tasks s"
  by (simp add: callFn_def tasks_emit split: option.split)

lemma tasks_newContext: "tasks (newContext t s) = tasks s"
  by (simp add: newContext_def Let_def tasks_callFn tasks_emit)

lemma tasks_send: "tasks (send t s) = tasks s"
  by (simp add: send_def tasks_emit)

lemma synthesize_error: "synthesize error = Inr m \<Longrightarrow> \<exists>e. msg_error m = Some e"
  by (auto simp: synthesize_def Let_def split: option.splits)

lemma runNow_body_Reply:
  "runNow_body t s = Reply m s' \<Longrightarrow> tasks s' = tasks s \<and> msg_error m \<noteq> None"
  by (auto simp: runNow_body_def Let_def tasks_newContext
      split: option.splits if_splits sum.splits dest: synthesize_error)

lemma length_tasks_run_inspect:
  "tasks s = q \<Longrightarrow> length (tasks (run_inspect t s)) \<le> Suc (length q)"
  by (auto simp: run_inspect_def Let_def runLater_def tasks_send tasks_newContext tasks_emit)

lemma length_tasks_invokeOnSuccess:
  "invokeOnSuccess h m s = Normal s' \<Longrightarrow> length (tasks s') \<le> Suc (length (tasks s))"
proof (cases h)
  case (UserFn f)
  assume "invokeOnSuccess h m s = Normal s'"
  with UserFn show ?thesis by (auto simp: tasks_emit)
next
  case (CompleteFn a c p cbs ex)
  assume "invokeOnSuccess h m s = Normal s'"
  with CompleteFn show ?thesis
    by (auto simp: completeOnSuccess_def Let_def tasks_callFn split: prod.splits sum.splits)
next
  case (InspectFn a c p cbs ex)
  assume "invokeOnSuccess h m s = Normal s'"
  with InspectFn show ?thesis
    by (auto simp: inspectOnSuccess_def Let_def tasks_callFn
        split: option.splits if_splits intro!: length_tasks_run_inspect)
next
  case (InspectDocFn a cbs ex)
  assume "invokeOnSuccess h m s = Normal s'"
  with InspectDocFn show ?thesis
    by (auto simp: inspectDocOnSuccess_def Let_def tasks_callFn split: option.splits)
qed

lemma length_tasks_deliver:
  "deliver t m s = Normal s' \<Longrightarrow>
     length (tasks s') \<le> Suc (length (tasks s)) \<and> (msg_error m \<noteq> None \<longrightarrow> tasks s' = tasks s)"
  using length_tasks_invokeOnSuccess
  by (auto simp: deliver_def tasks_callFn split: option.splits)

lemma tasks_deleteContext: "tasks (deleteContext i s) = tasks s"
  by (simp add: deleteContext_def split: option.split)

lemma finish_Next: "finish t i e s = Next t' s' \<Longrightarrow> Suc (length (tasks s')) = length (tasks s)"
  by (auto simp: finish_def Let_def tasks_callFn tasks_deleteContext tasks_emit
      split: if_splits list.splits)

lemma onMessage_body_Next:
  assumes "onMessage_body m s = Next t' s'"
  shows "length (tasks s') \<le> length (tasks s)"
    and "msg_error m \<noteq> None \<Longrightarrow> length (tasks s') < length (tasks s)"
proof -
  from assms obtain t s1 where
    d: "deliver t (m\<lparr>msg_id := None, msg_end := False\<rparr>) s = Normal s1" and
    f: "finish t (msg_id m) (msg_end m) s1 = Next t' s'"
    by (auto simp: onMessage_body_def Let_def split: if_splits option.splits outcome.splits)
  from length_tasks_deliver [OF d] finish_Next [OF f]
  show "length (tasks s') \<le> length (tasks s)"
    and "msg_error m \<noteq> None \<Longrightarrow> length (tasks s') < length (tasks s)"
    by auto
qed

function onMessage :: "message \<Rightarrow> session \<Rightarrow> outcome"
  and runNow :: "task \<Rightarrow> session \<Rightarrow> outcome" where
  "onMessage m s =
     (case onMessage_body m s of
        Routed r \<Rightarrow> r
      | Next t s' \<Rightarrow> runNow t s')"
| "runNow t s =
     (case runNow_body t s of
        Finished r \<Rightarrow> r
      | Reply m s' \<Rightarrow> onMessage m s')"
  by pat_completeness auto
termination
proof (relation "measure (\<lambda>x. case x of
          Inl (m, s) \<Rightarrow> 2 * length (tasks s) + (if msg_error m = None then 2 else 0)
        | Inr (t, s) \<Rightarrow> 2 * length (tasks s) + 1)")
  show "wf (measure (\<lambda>x. case x of
          Inl (m, s) \<Rightarrow> 2 * length (tasks s) + (if msg_error m = None then 2 else 0)
        | Inr (t, s) \<Rightarrow> 2 * length (tasks s) + 1))"
    by simp
next
  fix m s t s'
  assume "onMessage_body m s = Next t s'"
  from onMessage_body_Next [OF this]
  show "(Inr (t, s'), Inl (m, s)) \<in> measure (\<lambda>x. case x of
          Inl (m, s) \<Rightarrow> 2 * length (tasks s) + (if msg_error m = None then 2 else 0)
        | Inr (t, s) \<Rightarrow> 2 * length (tasks s) + 1)"
    by (cases "msg_error m = None") auto
next
  fix t s m s'
  assume "runNow_body t s = Reply m s'"
  from runNow_body_Reply [OF this]
  show "(Inl (m, s'), Inr (t, s)) \<in> measure (\<lambda>x. case x of
          Inl (m, s) \<Rightarrow> 2 * length (tasks s) + (if msg_error m = None then 2 else 0)
        | Inr (t, s) \<Rightarrow> 2 * length (tasks s) + 1)"
    by auto
qed

declare onMessage.simps [simp del] runNow.simps [simp del]

lemma onMessage_Routed: "onMessage_body m s = Routed r \<Longrightarrow> onMessage m s = r"
  by (simp add: onMessage.simps)

lemma onMessage_Next: "onMessage_body m s = Next t s' \<Longrightarrow> onMessage m s = runNow t s'"
  by (simp add: onMessage.simps)

lemma runNow_Finished: "runNow_body t s = Finished r \<Longrightarrow> runNow t s = r"
  by (simp add: runNow.simps)

lemma runNow_Reply: "runNow_body t s = Reply m s' \<Longrightarrow> runNow t s = onMessage m s'"
  by (simp add: runNow.simps)

section \<open>The session: construction and the public operations\<close>

definition Session :: "config \<Rightarrow> session \<Rightarrow> session" where
  \<comment> \<open>The constructor, run on \<open>this\<close> (lines 117-191).  The object literal assigned to
      \<open>this._config\<close> has the properties \<open>cwd\<close> and \<open>stdio\<close> only.\<close>
  "Session nelConfig s =
     (let conf = \<lparr>cfg_cwd = cfg_cwd nelConfig, cfg_transpile = None,
                  cfg_stdio = Some (if DEBUG s then StdioInherit else StdioIgnore)\<rparr>
      in emit (Forked (cfg_cwd conf) (cfg_stdio conf))
           (s\<lparr>transpile := cfg_transpile nelConfig,
              tasks := [],
              currentTask := None,
              contextTable := (\<lambda>i. None),
              lastContextId := 0,
              lastTask := None,
              config := conf,
              server := nextRef s,
              killed := False,
              nextRef := nextRef s + 1,
              listening := True,
              exitListener := None\<rparr>))"

definition newSession ::
  "bool \<Rightarrow> (string \<Rightarrow> documentation option) \<Rightarrow> config option \<Rightarrow> session" where
  \<comment> \<open>\<open>new Session(nelConfig)\<close>, with \<open>nelConfig = nelConfig || {}\<close>, in a fresh environment\<close>
  "newSession debug dict nelConfig =
     Session (case nelConfig of
                None \<Rightarrow> \<lparr>cfg_cwd = None, cfg_transpile = None, cfg_stdio = None\<rparr>
              | Some c \<Rightarrow> c)
       \<lparr>transpile = None, tasks = [], currentTask = None, contextTable = (\<lambda>i. None),
        lastContextId = 0, lastTask = None,
        config = \<lparr>cfg_cwd = None, cfg_transpile = None, cfg_stdio = None\<rparr>,
        server = 0, killed = False, DEBUG = debug, mdn = dict,
        matchList = (\<lambda>a. []), inspectionResult = (\<lambda>a. None), nextRef = 0,
        listening = False, exitListener = None, effects = []\<rparr>"

definition run :: "task \<Rightarrow> session \<Rightarrow> outcome" where
  \<comment> \<open>\<open>_run\<close>, lines 597-609\<close>
  "run t s =
     (if killed s then Normal s
      else
        let s1 = emit (Accepted (ref t)) s in
        if currentTask s1 = None then runNow t s1 else Normal (runLater t s1))"

lemma run_inspect_eq: "action t \<noteq> Run \<Longrightarrow> run t s = Normal (run_inspect t s)"
  \<comment> \<open>on a task that is not a "run" task, \<open>run_inspect\<close> is \<open>_run\<close>\<close>
proof -
  assume "action t \<noteq> Run"
  then have "runNow_body t s' = Finished (Normal (send t (newContext t s')))" for s'
    by (simp add: runNow_body_def Let_def split: option.split)
  then show ?thesis
    by (simp add: run_def run_inspect_def Let_def runNow_Finished)
qed

definition execute :: "string \<Rightarrow> callbacks option \<Rightarrow> session \<Rightarrow> outcome" where
  "execute code' cbs s =
     run \<lparr>ref = nextRef s, action = Run, code = code',
          onSuccess = map_option UserFn (pick cbs cb_onSuccess),
          onError = pick cbs cb_onError, beforeRun = pick cbs cb_beforeRun,
          afterRun = pick cbs cb_afterRun,
          onStdout = pick cbs cb_onStdout, onStderr = pick cbs cb_onStderr\<rparr>
       (s\<lparr>nextRef := nextRef s + 1\<rparr>)"

definition complete :: "string \<Rightarrow> int \<Rightarrow> callbacks option \<Rightarrow> session \<Rightarrow> outcome" where
  "complete code' cursorPos cbs s =
     (case parseExpression code' cursorPos of
        None \<Rightarrow>
          Normal
            (callFn AfterRun (pick cbs cb_afterRun) NoArg
              (callFn OnSuccess (pick cbs cb_onSuccess)
                 (CompletionArg \<lparr>c_list = [], c_code = code', c_cursorPos = cursorPos,
                                  c_matchedText = [], c_cursorStart = cursorPos,
                                  c_cursorEnd = cursorPos\<rparr>)
                (callFn BeforeRun (pick cbs cb_beforeRun) NoArg s)))
      | Some ex \<Rightarrow>
          run \<lparr>ref = nextRef s, action = GetAllPropertyNames,
               code = (if scope ex = [] then ''global'' else scope ex),
               onSuccess = Some (CompleteFn (nextRef s) code' cursorPos cbs ex),
               onError = pick cbs cb_onError, beforeRun = pick cbs cb_beforeRun,
               afterRun = pick cbs cb_afterRun,
               onStdout = pick cbs cb_onStdout, onStderr = pick cbs cb_onStderr\<rparr>
            (s\<lparr>matchList := (matchList s)(nextRef s := []), nextRef := nextRef s + 1\<rparr>))"

definition inspect :: "string \<Rightarrow> int \<Rightarrow> callbacks option \<Rightarrow> session \<Rightarrow> outcome" where
  "inspect code' cursorPos cbs s =
     (case parseExpression code' cursorPos of
        None \<Rightarrow>
          Normal
            (callFn AfterRun (pick cbs cb_afterRun) NoArg
              (callFn OnSuccess (pick cbs cb_onSuccess)
                 (MessageArg (emptyMessage\<lparr>msg_inspection :=
                    Some \<lparr>insp_code = Some code', insp_cursorPos = Some cursorPos,
                          insp_matchedText = Some [], insp_string = [], insp_type = [],
                          constructorList = None, insp_length = None\<rparr>\<rparr>))
                (callFn BeforeRun (pick cbs cb_beforeRun) NoArg s)))
      | Some ex \<Rightarrow>
          run \<lparr>ref = nextRef s, action = Inspect, code = matchedText ex,
               onSuccess = Some (InspectFn (nextRef s) code' cursorPos cbs ex),
               onError = pick cbs cb_onError, beforeRun = pick cbs cb_beforeRun,
               afterRun = None,
               onStdout = pick cbs cb_onStdout, onStderr = pick cbs cb_onStderr\<rparr>
            (s\<lparr>inspectionResult := (inspectionResult s)(nextRef s := None),
               nextRef := nextRef s + 1\<rparr>))"

definition orSIGTERM :: "string option \<Rightarrow> string" where
  \<comment> \<open>\<open>signal || "SIGTERM"\<close>\<close>
  "orSIGTERM signal = (case signal of None \<Rightarrow> ''SIGTERM'' | Some w \<Rightarrow> if w = [] then ''SIGTERM'' else w)"

definition killWith :: "string option \<Rightarrow> exit_listener \<Rightarrow> session \<Rightarrow> session" where
  \<comment> \<open>\<open>kill\<close>, lines 1002-1011, with the function it registers for the server's \<open>exit\<close>\<close>
  "killWith signal l s =
     (emit (Signalled (orSIGTERM signal)) (s\<lparr>killed := True, listening := False\<rparr>))
       \<lparr>exitListener := Some l\<rparr>"

definition kill :: "string option \<Rightarrow> nat option \<Rightarrow> session \<Rightarrow> session" where
  "kill signal killCB s = killWith signal (KillFn killCB) s"

definition restart :: "string option \<Rightarrow> nat option \<Rightarrow> session \<Rightarrow> session" where
  \<comment> \<open>lines 1020-1027\<close>
  "restart signal restartCB s = killWith (Some (orSIGTERM signal)) (RestartFn restartCB) s"

definition serverExit :: "int option \<Rightarrow> string option \<Rightarrow> session \<Rightarrow> session" where
  \<comment> \<open>the server's \<open>exit\<close> event: the function registered by \<open>kill\<close> runs, for \<open>restart\<close> the
      one of lines 1021-1026, which calls \<open>Session.call(this, this._config)\<close>\<close>
  "serverExit exitCode signal s =
     (case exitListener s of
        None \<Rightarrow> s
      | Some (KillFn killCB) \<Rightarrow> callFn KillCB killCB (ExitArg exitCode signal) s
      | Some (RestartFn restartCB) \<Rightarrow>
          callFn RestartCB restartCB (ExitArg exitCode signal) (Session (config s) s))"

section \<open>Runs of a session\<close>

datatype event =
    Execute string "callbacks option"
  | Complete string int "callbacks option"
  | InspectAt string int "callbacks option"
  | Receive message
  | Kill "string option" "nat option"
  | Restart "string option" "nat option"
  | ServerExit "int option" "string option"

fun step :: "event \<Rightarrow> session \<Rightarrow> outcome" where
  "step (Execute c cbs) s = execute c cbs s"
| "step (Complete c p cbs) s = complete c p cbs s"
| "step (InspectAt c p cbs) s = inspect c p cbs s"
| "step (Receive m) s = (if listening s then onMessage m s else Normal s)"
| "step (Kill signal f) s = Normal (kill signal f s)"
| "step (Restart signal f) s = Normal (restart signal f s)"
| "step (ServerExit c signal) s = Normal (serverExit c signal s)"

text \<open>
  A run: the events in order.  A caller that catches what a call throws goes on with the
  session as the throw left it, so a run continues from that state.
\<close>

fun after :: "event list \<Rightarrow> session \<Rightarrow> session" where
  "after [] s = s"
| "after (e # es) s = after es (state_of (step e s))"

subsection \<open>Reading the effects\<close>

fun accepts :: "effect list \<Rightarrow> nat list" where
  \<comment> \<open>the tasks \<open>_run\<close> took, in order\<close>
  "accepts [] = []"
| "accepts (Accepted r # es) = r # accepts es"
| "accepts (e # es) = accepts es"

fun dispatches :: "effect list \<Rightarrow> (nat \<times> nat) list" where
  \<comment> \<open>the tasks \<open>_runNow\<close> dispatched, each with its context id, in order\<close>
  "dispatches [] = []"
| "dispatches (Dispatched r i # es) = (r, i) # dispatches es"
| "dispatches (e # es) = dispatches es"

fun sends :: "effect list \<Rightarrow> (action \<times> string \<times> nat) list" where
  \<comment> \<open>the messages sent to the server, in order\<close>
  "sends [] = []"
| "sends (Sent a c i # es) = (a, c, i) # sends es"
| "sends (e # es) = sends es"

fun invocations :: "role \<Rightarrow> effect list \<Rightarrow> (nat \<times> arg) list" where
  \<comment> \<open>the calls of the caller's functions in one role, in order\<close>
  "invocations r [] = []"
| "invocations r (Invoked r' f a # es) =
     (if r' = r then (f, a) # invocations r es else invocations r es)"
| "invocations r (e # es) = invocations r es"

fun occupant :: "nat option \<Rightarrow> effect list \<Rightarrow> nat option" where
  \<comment> \<open>the task in the in-flight slot after the effects, \<open>cur\<close> being the one before them\<close>
  "occupant cur [] = cur"
| "occupant cur (Dispatched r i # es) = occupant (Some r) es"
| "occupant cur (Released r e # es) = occupant None es"
| "occupant cur (x # es) = occupant cur es"

fun oneAtATime :: "nat option \<Rightarrow> effect list \<Rightarrow> bool" where
  \<comment> \<open>every dispatch finds the in-flight slot empty, every release finds in it the task
      it releases\<close>
  "oneAtATime cur [] = True"
| "oneAtATime cur (Dispatched r i # es) = (cur = None \<and> oneAtATime (Some r) es)"
| "oneAtATime cur (Released r e # es) = (cur = Some r \<and> oneAtATime None es)"
| "oneAtATime cur (x # es) = oneAtATime cur es"

definition sentIds :: "effect list \<Rightarrow> nat list" where
  \<comment> \<open>the context ids of the messages sent to the server, in order\<close>
  "sentIds es = map (\<lambda>(a, c, i). i) (sends es)"

fun isForked :: "effect \<Rightarrow> bool" where
  "isForked (Forked d io) = True"
| "isForked e = False"

definition lifetime :: "effect list \<Rightarrow> effect list" where
  \<comment> \<open>the effects of the present session: those since the constructor last forked a server\<close>
  "lifetime es = rev (takeWhile (\<lambda>e. \<not> isForked e) (rev es))"

section \<open>Notions for the proofs about runs\<close>

text \<open>
  A step is quiet when it only calls \<open>onSuccess\<close>, \<open>onError\<close> or \<open>afterRun\<close> functions of the
  caller and leaves the queue, the in-flight slot and the context counter alone; it may
  delete entries of the context table.
\<close>

fun callback :: "effect \<Rightarrow> bool" where
  "callback (Invoked r f a) = (r = OnSuccess \<or> r = OnError \<or> r = AfterRun)"
| "callback e = False"

definition quiet :: "session \<Rightarrow> session \<Rightarrow> bool" where
  "quiet s s' \<longleftrightarrow>
     tasks s' = tasks s \<and> currentTask s' = currentTask s \<and> lastContextId s' = lastContextId s
     \<and> lastTask s' = lastTask s \<and> killed s' = killed s \<and> transpile s' = transpile s
     \<and> listening s' = listening s
     \<and> (\<forall>i. contextTable s' i = None \<or> contextTable s' i = contextTable s i)
     \<and> (\<exists>xs. effects s' = effects s @ xs \<and> list_all callback xs)"

text \<open>
  The invariant of a session, over the effects of its lifetime: the context ids count up
  from 1; the accepted tasks are the dispatched ones followed by the queue; no task waits
  while the slot is empty; the slot was empty at every dispatch and holds what the history
  says; the ids sent to the server increase and are ids allocated.  \<open>ready t s\<close> is the
  same when \<open>t\<close> has left the queue and is about to be dispatched.
\<close>

definition orderly :: "session \<Rightarrow> bool" where
  "orderly s \<longleftrightarrow>
     map snd (dispatches (lifetime (effects s))) = [1..<Suc (lastContextId s)]
     \<and> accepts (lifetime (effects s)) =
         map fst (dispatches (lifetime (effects s))) @ map ref (tasks s)
     \<and> (case currentTask s of None \<Rightarrow> tasks s = [] | Some t \<Rightarrow> True)
     \<and> oneAtATime None (lifetime (effects s))
     \<and> occupant None (lifetime (effects s)) = map_option ref (currentTask s)
     \<and> sorted_wrt (<) (0 # sentIds (lifetime (effects s)) @ [Suc (lastContextId s)])"

definition ready :: "task \<Rightarrow> session \<Rightarrow> bool" where
  "ready t s \<longleftrightarrow>
     map snd (dispatches (lifetime (effects s))) = [1..<Suc (lastContextId s)]
     \<and> accepts (lifetime (effects s)) =
         map fst (dispatches (lifetime (effects s))) @ ref t # map ref (tasks s)
     \<and> oneAtATime None (lifetime (effects s))
     \<and> occupant None (lifetime (effects s)) = None
     \<and> sorted_wrt (<) (0 # sentIds (lifetime (effects s)) @ [Suc (lastContextId s)])"

text \<open>
  \<open>grown es s\<close>: the effects of \<open>s\<close> begin with \<open>es\<close>.
\<close>

definition grown :: "effect list \<Rightarrow> session \<Rightarrow> bool" where
  "grown es s \<longleftrightarrow> (\<exists>rest. effects s = es @ rest)"

text \<open>
  \<open>tabled s\<close>: every entry of the context table holds, under an id, the task that a dispatch
  of the present lifetime gave that id.  \<open>reached d\<close> is the state in which \<open>_runNow\<close> sends
  its message, throws, or hands a synthesized reply to \<open>_onMessage\<close>.
\<close>

definition tabled :: "session \<Rightarrow> bool" where
  "tabled s \<longleftrightarrow>
     (\<forall>i t. contextTable s i = Some t \<longrightarrow> (ref t, i) \<in> set (dispatches (lifetime (effects s))))"

fun reached :: "dispatch \<Rightarrow> session" where
  "reached (Finished r) = state_of r"
| "reached (Reply m s) = s"

section \<open>Properties of the expression parser and of completion\<close>


lemma filter_hasPrefix_JString:
  "filter (hasPrefix p) (map JString ns) = map JString (filter (\<lambda>e. startsWith e p) ns)"
  by (induction ns) auto

lemma startsWith_Nil: "startsWith e []"
  by (simp add: startsWith_def)

text \<open>
  Claim C5, as amended.  In the success path of \<open>complete\<close>, on the first reply, for every
  expression and every list of names: the completion list holds, in order, each name that
  survives the prefix filter (the returned names, followed by the reserved words when the
  scope is empty), wrapped as \<open>scope + leftOp + entry + rightOp\<close>.
\<close>

theorem complete_wraps_scope_and_operators:
  "\<exists>c. snd (completionOf code' cursorPos ex [] (Some ns)) = Inr c \<and>
        c_list c =
          map (\<lambda>e. JString (scope ex @ leftOp ex @ e @ rightOp ex))
            (filter (\<lambda>e. startsWith e (selector ex))
               (ns @ (if scope ex = [] then javascriptKeywords else [])))"
proof -
  define every where "every = ns @ (if scope ex = [] then javascriptKeywords else [])"
  define kept where "kept = filter (\<lambda>e. startsWith e (selector ex)) every"
  define wrapped where "wrapped = map (\<lambda>e. JString (scope ex @ leftOp ex @ e @ rightOp ex)) kept"
  have e2: "(if scope ex = [] then ([] @ map JString ns) @ map JString javascriptKeywords
             else [] @ map JString ns) = map JString every"
    by (simp add: every_def)
  have nu2: "JUndefined \<notin> set (map JString every)" by auto
  have f3: "(if selector ex \<noteq> [] then filter (hasPrefix (selector ex)) (map JString every)
             else map JString every) = map JString kept"
    by (simp add: kept_def filter_hasPrefix_JString startsWith_Nil)
  have w4: "(if \<not> (scope ex @ leftOp ex = [] \<and> rightOp ex = [])
             then map (\<lambda>e. JString ((scope ex @ leftOp ex) @ toText e @ rightOp ex)) (map JString kept)
             else map JString kept) = wrapped"
    by (auto simp: wrapped_def comp_def)
  have nu4: "JUndefined \<notin> set wrapped" by (auto simp: wrapped_def)
  have "\<exists>c. snd (completionOf code' cursorPos ex [] (Some ns)) = Inr c \<and> c_list c = wrapped"
    unfolding completionOf_def Let_def option.case e2
    apply (simp only: nu2 simp_thms if_False f3 w4)
    using nu4 by (auto split: list.split)
  then show ?thesis
    by (simp add: wrapped_def kept_def every_def)
qed

text \<open>
  Claim C5 as stated fails: the wrapping is not \<open>leftOp + entry + rightOp\<close>.  For
  \<open>foo.b\<close> and the name \<open>bar\<close> the list holds \<open>foo.bar\<close> and not \<open>.bar\<close>.
\<close>

theorem complete_wraps_counterexample:
  "parseExpression ''foo.b'' 5 =
     Some \<lparr>matchedText = ''foo.b'', scope = ''foo'', leftOp = ''.'', selector = ''b'', rightOp = ''''\<rparr>
   \<and> map_sum id c_list
       (snd (completionOf ''foo.b'' 5
          \<lparr>matchedText = ''foo.b'', scope = ''foo'', leftOp = ''.'', selector = ''b'', rightOp = ''''\<rparr>
          [] (Some [''bar'']))) = Inr [JString ''foo.bar'']
   \<and> JString (''.'' @ ''bar'' @ '''') \<notin> set [JString ''foo.bar'']"
  by code_simp

section \<open>Properties of the session\<close>

subsection \<open>What each step leaves unchanged\<close>

lemma emit_fields [simp]:
  "transpile (emit e s) = transpile s"
  "currentTask (emit e s) = currentTask s"
  "contextTable (emit e s) = contextTable s"
  "lastContextId (emit e s) = lastContextId s"
  "lastTask (emit e s) = lastTask s"
  "killed (emit e s) = killed s"
  "matchList (emit e s) = matchList s"
  "nextRef (emit e s) = nextRef s"
  "listening (emit e s) = listening s"
  "effects (emit e s) = effects s @ [e]"
  by (simp_all add: emit_def)

lemma callFn_fields [simp]:
  "transpile (callFn r f a s) = transpile s"
  "currentTask (callFn r f a s) = currentTask s"
  "contextTable (callFn r f a s) = contextTable s"
  "lastContextId (callFn r f a s) = lastContextId s"
  "lastTask (callFn r f a s) = lastTask s"
  "killed (callFn r f a s) = killed s"
  "matchList (callFn r f a s) = matchList s"
  "nextRef (callFn r f a s) = nextRef s"
  "listening (callFn r f a s) = listening s"
  "effects (callFn r f a s) = effects s @ (case f of None \<Rightarrow> [] | Some g \<Rightarrow> [Invoked r g a])"
  by (simp_all add: callFn_def split: option.split)

lemma newContext_fields [simp]:
  "transpile (newContext t s) = transpile s"
  "currentTask (newContext t s) = Some t"
  "contextTable (newContext t s) = (contextTable s)(Suc (lastContextId s) := Some t)"
  "lastContextId (newContext t s) = Suc (lastContextId s)"
  "lastTask (newContext t s) = Some t"
  "killed (newContext t s) = killed s"
  "matchList (newContext t s) = matchList s"
  "nextRef (newContext t s) = nextRef s"
  "listening (newContext t s) = listening s"
  "effects (newContext t s) =
     effects s @ Dispatched (ref t) (Suc (lastContextId s))
       # (case beforeRun t of None \<Rightarrow> [] | Some g \<Rightarrow> [Invoked BeforeRun g NoArg])"
  by (simp_all add: newContext_def Let_def)

lemma send_fields [simp]:
  "transpile (send t s) = transpile s"
  "currentTask (send t s) = currentTask s"
  "contextTable (send t s) = contextTable s"
  "lastContextId (send t s) = lastContextId s"
  "lastTask (send t s) = lastTask s"
  "killed (send t s) = killed s"
  "matchList (send t s) = matchList s"
  "nextRef (send t s) = nextRef s"
  "listening (send t s) = listening s"
  "effects (send t s) = effects s @ [Sent (action t) (code t) (lastContextId s)]"
  by (simp_all add: send_def)

lemma newSession_fields [simp]:
  "transpile (newSession debug dict cfg) = (case cfg of None \<Rightarrow> None | Some c \<Rightarrow> cfg_transpile c)"
  "tasks (newSession debug dict cfg) = []"
  "currentTask (newSession debug dict cfg) = None"
  "contextTable (newSession debug dict cfg) = (\<lambda>i. None)"
  "lastContextId (newSession debug dict cfg) = 0"
  "lastTask (newSession debug dict cfg) = None"
  "killed (newSession debug dict cfg) = False"
  "matchList (newSession debug dict cfg) = (\<lambda>a. [])"
  "nextRef (newSession debug dict cfg) = 1"
  "listening (newSession debug dict cfg) = True"
  "effects (newSession debug dict cfg) =
     [Forked (case cfg of None \<Rightarrow> None | Some c \<Rightarrow> cfg_cwd c)
        (Some (if debug then StdioInherit else StdioIgnore))]"
  by (simp_all add: newSession_def Session_def Let_def emit_def split: option.split)

lemma run_idle:
  "\<not> killed s \<Longrightarrow> currentTask s = None \<Longrightarrow> transpile s = None \<Longrightarrow>
     run t s = Normal (send t (newContext t (emit (Accepted (ref t)) s)))"
  by (simp add: run_def Let_def runNow_Finished runNow_body_def)

lemma sends_append: "sends (xs @ ys) = sends xs @ sends ys"
  by (induction xs rule: sends.induct) auto

lemma invocations_append: "invocations r (xs @ ys) = invocations r xs @ invocations r ys"
  by (induction r xs rule: invocations.induct) auto

lemma tasks_fields [simp]:
  "tasks (emit e s) = tasks s"
  "tasks (callFn r f a s) = tasks s"
  "tasks (newContext t s) = tasks s"
  "tasks (send t s) = tasks s"
  "tasks (deleteContext i s) = tasks s"
  by (simp_all add: tasks_emit tasks_callFn tasks_newContext tasks_send tasks_deleteContext)

lemma deleteContext_fields [simp]:
  "currentTask (deleteContext i s) = currentTask s"
  "effects (deleteContext i s) = effects s"
  by (simp_all add: deleteContext_def split: option.split)

lemma deliver_complete:
  "msg_error m = None \<Longrightarrow> onSuccess t = Some (CompleteFn a c p cbs ex) \<Longrightarrow>
   completionOf c p ex (matchList s a) (msg_names m) = (ml, Inr cmp) \<Longrightarrow>
   deliver t m s =
     Normal (callFn OnSuccess (pick cbs cb_onSuccess) (CompletionArg cmp)
               (s\<lparr>matchList := (matchList s)(a := ml)\<rparr>))"
  by (simp add: deliver_def completeOnSuccess_def)

lemma onMessage_body_result:
  "\<not> truthy (msg_log m) \<Longrightarrow> \<not> truthy (msg_stdout m) \<Longrightarrow> \<not> truthy (msg_stderr m) \<Longrightarrow>
   lookupTask (msg_id m) s = Some t \<Longrightarrow>
   deliver t (m\<lparr>msg_id := None, msg_end := False\<rparr>) s = Normal s1 \<Longrightarrow>
   onMessage_body m s = finish t (msg_id m) (msg_end m) s1"
  by (simp add: onMessage_body_def Let_def)

lemma parse_foo_b:
  "parseExpression ''foo.b'' 5 =
     Some \<lparr>matchedText = ''foo.b'', scope = ''foo'', leftOp = ''.'', selector = ''b'', rightOp = []\<rparr>"
  by code_simp

lemma completionOf_foo_b:
  "completionOf ''foo.b'' 5
     \<lparr>matchedText = ''foo.b'', scope = ''foo'', leftOp = ''.'', selector = ''b'', rightOp = []\<rparr>
     [] (Some [''bar'', ''baz'', ''qux'']) =
   ([JString ''foo.bar'', JString ''foo.baz''],
    Inr \<lparr>c_list = [JString ''foo.bar'', JString ''foo.baz''], c_code = ''foo.b'',
         c_cursorPos = 5, c_matchedText = ''foo.b'', c_cursorStart = 0, c_cursorEnd = 5\<rparr>)"
  by code_simp

text \<open>
  Claim C4.  \<open>complete("foo.b", 5)\<close> on a new session asks the server for the property
  names of \<open>foo\<close> under context id 1; when the server replies with the names \<open>bar\<close>, \<open>baz\<close>
  and \<open>qux\<close>, the caller's \<open>onSuccess\<close> is called once, with the completion whose list is
  \<open>foo.bar\<close>, \<open>foo.baz\<close>, whose \<open>matchedText\<close> is \<open>foo.b\<close>, \<open>cursorStart\<close> 0 and \<open>cursorEnd\<close> 5.
  This holds whatever the caller's other callbacks are, and with or without the end flag.
\<close>

theorem complete_foo_b:
  "sends (effects (after
       [Complete ''foo.b'' 5 (Some (cb\<lparr>cb_onSuccess := Some f\<rparr>)),
        Receive (emptyMessage\<lparr>msg_id := Some 1, msg_end := e,
                              msg_names := Some [''bar'', ''baz'', ''qux'']\<rparr>)]
       (newSession debug dict None))) = [(GetAllPropertyNames, ''foo'', 1)]
   \<and> invocations OnSuccess (effects (after
       [Complete ''foo.b'' 5 (Some (cb\<lparr>cb_onSuccess := Some f\<rparr>)),
        Receive (emptyMessage\<lparr>msg_id := Some 1, msg_end := e,
                              msg_names := Some [''bar'', ''baz'', ''qux'']\<rparr>)]
       (newSession debug dict None))) =
     [(f, CompletionArg
            \<lparr>c_list = [JString ''foo.bar'', JString ''foo.baz''], c_code = ''foo.b'',
             c_cursorPos = 5, c_matchedText = ''foo.b'', c_cursorStart = 0, c_cursorEnd = 5\<rparr>)]"
proof -
  let ?cbs = "Some (cb\<lparr>cb_onSuccess := Some f\<rparr>)"
  let ?ex = "\<lparr>matchedText = ''foo.b'', scope = ''foo'', leftOp = ''.'', selector = ''b'', rightOp = []\<rparr>"
  let ?c = "\<lparr>c_list = [JString ''foo.bar'', JString ''foo.baz''], c_code = ''foo.b'',
             c_cursorPos = 5, c_matchedText = ''foo.b'', c_cursorStart = 0, c_cursorEnd = 5\<rparr>"
  define m where "m = emptyMessage\<lparr>msg_id := Some 1, msg_end := e,
                              msg_names := Some [''bar'', ''baz'', ''qux'']\<rparr>"
  define s0 where "s0 = newSession debug dict None"
  define t where "t = \<lparr>ref = Suc 0, action = GetAllPropertyNames, code = ''foo'',
               onSuccess = Some (CompleteFn (Suc 0) ''foo.b'' 5 ?cbs ?ex),
               onError = cb_onError cb, beforeRun = cb_beforeRun cb,
               afterRun = cb_afterRun cb,
               onStdout = cb_onStdout cb, onStderr = cb_onStderr cb\<rparr>"
  define s1 where "s1 = send t (newContext t (emit (Accepted (Suc 0))
      (s0\<lparr>matchList := (matchList s0)(Suc 0 := []), nextRef := Suc (Suc 0)\<rparr>)))"
  have step1: "step (Complete ''foo.b'' 5 ?cbs) s0 = Normal s1"
    by (simp add: complete_def parse_foo_b s0_def s1_def t_def pick_def run_idle)
  have s1_sends: "sends (effects s1) = [(GetAllPropertyNames, ''foo'', 1)]"
    by (simp add: s1_def s0_def sends_append t_def split: option.split)
  have s1_inv: "invocations OnSuccess (effects s1) = []"
    by (simp add: s1_def s0_def invocations_append t_def split: option.split)
  have s1_fields: "listening s1" "contextTable s1 (Suc 0) = Some t" "matchList s1 (Suc 0) = []"
    "currentTask s1 = Some t" "tasks s1 = []"
    by (simp_all add: s1_def s0_def)
  have m_fields: "msg_id m = Some (Suc 0)" "msg_end m = e" "\<not> truthy (msg_log m)"
    "\<not> truthy (msg_stdout m)" "\<not> truthy (msg_stderr m)"
    "msg_error (m\<lparr>msg_id := None, msg_end := False\<rparr>) = None"
    "msg_names (m\<lparr>msg_id := None, msg_end := False\<rparr>) = Some [''bar'', ''baz'', ''qux'']"
    by (simp_all add: m_def emptyMessage_def truthy_def)
  define s2 where "s2 = callFn OnSuccess (Some f) (CompletionArg ?c)
       (s1\<lparr>matchList := (matchList s1)(Suc 0 := [JString ''foo.bar'', JString ''foo.baz''])\<rparr>)"
  have "deliver t (m\<lparr>msg_id := None, msg_end := False\<rparr>) s1 = Normal s2"
    unfolding s2_def
    using deliver_complete [of "m\<lparr>msg_id := None, msg_end := False\<rparr>" t "Suc 0" "''foo.b''" 5 ?cbs ?ex s1
        "[JString ''foo.bar'', JString ''foo.baz'']" ?c]
    by (simp add: m_fields s1_fields completionOf_foo_b pick_def) (simp add: t_def)
  then have body: "onMessage_body m s1 = finish t (Some (Suc 0)) e s2"
    using onMessage_body_result [of m s1 t s2]
    by (simp add: m_fields lookupTask_def s1_fields)
  define s3 where "s3 = emit (Released (Suc 0) e)
      ((if e then callFn AfterRun (cb_afterRun cb) NoArg (deleteContext (Some (Suc 0)) s2)
        else s2)\<lparr>currentTask := None\<rparr>)"
  have "finish t (Some (Suc 0)) e s2 = Routed (Normal s3)"
    by (simp add: finish_def Let_def s2_def s1_fields s3_def t_def)
  with body have step2: "step (Receive m) s1 = Normal s3"
    by (simp add: s1_fields onMessage_Routed)
  have final: "after [Complete ''foo.b'' 5 ?cbs, Receive m] s0 = s3"
    by (simp only: after.simps step1 step2 state_of.simps)
  have "sends (effects s3) = [(GetAllPropertyNames, ''foo'', 1)]"
    using s1_sends by (simp add: s3_def s2_def sends_append split: option.split)
  moreover have "invocations OnSuccess (effects s3) = [(f, CompletionArg ?c)]"
    using s1_inv by (simp add: s3_def s2_def invocations_append split: option.split)
  ultimately show ?thesis
    using final by (simp add: s0_def m_def)
qed

lemma dispatches_append: "dispatches (xs @ ys) = dispatches xs @ dispatches ys"
  by (induction xs rule: dispatches.induct) auto

lemma accepts_append: "accepts (xs @ ys) = accepts xs @ accepts ys"
  by (induction xs rule: accepts.induct) auto

subsection \<open>Streaming messages\<close>

lemma onMessage_streaming:
  assumes "truthy (msg_stdout m) \<or> truthy (msg_stderr m)"
  shows "\<exists>s'. onMessage_body m s = Routed (Normal s') \<and> contextTable s' = contextTable s
           \<and> tasks s' = tasks s \<and> currentTask s' = currentTask s
           \<and> lastContextId s' = lastContextId s
           \<and> dispatches (effects s') = dispatches (effects s)
           \<and> sends (effects s') = sends (effects s)
           \<and> invocations AfterRun (effects s') = invocations AfterRun (effects s)"
  using assms
  by (auto simp: onMessage_body_def Let_def dispatches_append sends_append invocations_append
      split: option.splits)

text \<open>
  Claim C9.  Routing a message with a non-empty \<open>stdout\<close> or \<open>stderr\<close> payload returns
  normally and leaves the context table, the pending queue and the in-flight slot as they
  were, whatever its end flag: no context id is allocated, nothing is sent to the server,
  no \<open>afterRun\<close> is called.
\<close>

theorem streaming_message_changes_nothing:
  "truthy (msg_stdout m) \<or> truthy (msg_stderr m) \<Longrightarrow>
   \<exists>s'. onMessage m s = Normal s' \<and> contextTable s' = contextTable s
      \<and> tasks s' = tasks s \<and> currentTask s' = currentTask s
      \<and> lastContextId s' = lastContextId s
      \<and> dispatches (effects s') = dispatches (effects s)
      \<and> sends (effects s') = sends (effects s)
      \<and> invocations AfterRun (effects s') = invocations AfterRun (effects s)"
proof -
  assume "truthy (msg_stdout m) \<or> truthy (msg_stderr m)"
  from onMessage_streaming [OF this, of s] obtain s' where
    b: "onMessage_body m s = Routed (Normal s')" and
    r: "contextTable s' = contextTable s \<and> tasks s' = tasks s \<and> currentTask s' = currentTask s
      \<and> lastContextId s' = lastContextId s
      \<and> dispatches (effects s') = dispatches (effects s)
      \<and> sends (effects s') = sends (effects s)
      \<and> invocations AfterRun (effects s') = invocations AfterRun (effects s)"
    by blast
  from onMessage_Routed [OF b] r show ?thesis by blast
qed

text \<open>
  A witness for C9: a \<open>stdout\<close> chunk with the end flag, for the running task of a session
  with a second task queued.
\<close>

theorem streaming_message_changes_nothing_witness:
  "truthy (msg_stdout (emptyMessage\<lparr>msg_id := Some 1, msg_end := True, msg_stdout := Some ''hi''\<rparr>))
   \<and> (\<exists>s'. onMessage (emptyMessage\<lparr>msg_id := Some 1, msg_end := True, msg_stdout := Some ''hi''\<rparr>)
               (after [Execute ''1'' None, Execute ''2'' None] (newSession False (\<lambda>n. None) None)) = Normal s'
          \<and> map_option ref (contextTable s' 1) = Some 1
          \<and> map ref (tasks s') = [2]
          \<and> map_option ref (currentTask s') = Some 1
          \<and> sends (effects s') = [(Run, ''1'', 1)])"
proof -
  let ?m = "emptyMessage\<lparr>msg_id := Some 1, msg_end := True, msg_stdout := Some ''hi''\<rparr>"
  let ?s = "after [Execute ''1'' None, Execute ''2'' None] (newSession False (\<lambda>n. None) None)"
  have t: "truthy (msg_stdout ?m)"
    by (simp add: truthy_def)
  have s: "map_option ref (contextTable ?s 1) = Some 1 \<and> map ref (tasks ?s) = [2]
      \<and> map_option ref (currentTask ?s) = Some 1 \<and> sends (effects ?s) = [(Run, ''1'', 1)]"
    by code_simp
  from streaming_message_changes_nothing [of ?m ?s] t s show ?thesis
    by auto
qed

subsection \<open>A transform hook that throws\<close>

text \<open>
  Claim C3 fails on the code.  When the hook throws a value without a message (here the
  string \<open>boom\<close>: truthy, \<open>typeof\<close> string, no \<open>name\<close>, \<open>message\<close> or \<open>stack\<close>), the \<open>catch\<close>
  block evaluates \<open>util.inspect(error)\<close> with \<open>util\<close> unbound: \<open>execute\<close> throws a
  ReferenceError to its caller, \<open>onError\<close> is not called, and nothing is sent.
\<close>

theorem transpile_throw_without_message_escapes:
  "\<exists>s'. execute c cbs
           (newSession debug dict
              (Some \<lparr>cfg_cwd = None,
                     cfg_transpile = Some (\<lambda>x. Inl \<lparr>thr_truthy = True, thr_typeof = ''string'',
                                                     thr_name = None, thr_message = None,
                                                     thr_stack = None\<rparr>),
                     cfg_stdio = None\<rparr>)) = Throws ReferenceError s'
        \<and> invocations OnError (effects s') = []
        \<and> sends (effects s') = []"
  by (simp add: execute_def run_def Let_def runNow_Finished runNow_body_def synthesize_def
      present_def invocations_append sends_append split: option.split)

text \<open>
  Claim C6 fails on the code.  When the hook throws an \<open>Error\<close> with a message (and any
  stack), \<open>onError\<close> is called and the in-flight slot is released, but the message built in
  the \<open>catch\<close> block carries neither the context id nor the end flag: the entry of the task
  stays in the context table, and its \<open>afterRun\<close> is never called.
\<close>

theorem transpile_throw_leaves_context_entry:
  "currentTask (after [Execute c (Some (cb\<lparr>cb_onError := Some f\<rparr>))]
       (newSession debug dict
          (Some \<lparr>cfg_cwd = None,
                 cfg_transpile = Some (\<lambda>x. Inl \<lparr>thr_truthy = True, thr_typeof = ''object'',
                                                 thr_name = Some ''Error'', thr_message = Some ''boom'',
                                                 thr_stack = st\<rparr>),
                 cfg_stdio = None\<rparr>))) = None
   \<and> map fst (invocations OnError (effects (after [Execute c (Some (cb\<lparr>cb_onError := Some f\<rparr>))]
       (newSession debug dict
          (Some \<lparr>cfg_cwd = None,
                 cfg_transpile = Some (\<lambda>x. Inl \<lparr>thr_truthy = True, thr_typeof = ''object'',
                                                 thr_name = Some ''Error'', thr_message = Some ''boom'',
                                                 thr_stack = st\<rparr>),
                 cfg_stdio = None\<rparr>))))) = [f]
   \<and> map_option ref (contextTable (after [Execute c (Some (cb\<lparr>cb_onError := Some f\<rparr>))]
       (newSession debug dict
          (Some \<lparr>cfg_cwd = None,
                 cfg_transpile = Some (\<lambda>x. Inl \<lparr>thr_truthy = True, thr_typeof = ''object'',
                                                 thr_name = Some ''Error'', thr_message = Some ''boom'',
                                                 thr_stack = st\<rparr>),
                 cfg_stdio = None\<rparr>))) 1) = Some 1
   \<and> invocations AfterRun (effects (after [Execute c (Some (cb\<lparr>cb_onError := Some f\<rparr>))]
       (newSession debug dict
          (Some \<lparr>cfg_cwd = None,
                 cfg_transpile = Some (\<lambda>x. Inl \<lparr>thr_truthy = True, thr_typeof = ''object'',
                                                 thr_name = Some ''Error'', thr_message = Some ''boom'',
                                                 thr_stack = st\<rparr>),
                 cfg_stdio = None\<rparr>)))) = []"
proof -
  let ?v = "\<lparr>thr_truthy = True, thr_typeof = ''object'', thr_name = Some ''Error'',
             thr_message = Some ''boom'', thr_stack = st\<rparr>"
  define s0 where "s0 = newSession debug dict
          (Some \<lparr>cfg_cwd = None, cfg_transpile = Some (\<lambda>x. Inl ?v), cfg_stdio = None\<rparr>)"
  define t where "t = \<lparr>ref = Suc 0, action = Run, code = c,
          onSuccess = map_option UserFn (cb_onSuccess cb),
          onError = Some f, beforeRun = cb_beforeRun cb, afterRun = cb_afterRun cb,
          onStdout = cb_onStdout cb, onStderr = cb_onStderr cb\<rparr>"
  define m where "m = emptyMessage\<lparr>msg_error :=
      Some \<lparr>ename = ''Error'', evalue = ''boom'',
            traceback = (case present ?v thr_stack of
                           Some w \<Rightarrow> TracebackLines (js_split (CHR 0x0A) w)
                         | None \<Rightarrow> TracebackText [])\<rparr>\<rparr>"
  define s1 where "s1 = newContext t (emit (Accepted (Suc 0)) (s0\<lparr>nextRef := Suc (Suc 0)\<rparr>))"
  have syn: "synthesize ?v = Inr m"
    by (simp add: synthesize_def m_def) (simp add: present_def)
  have "runNow_body t (emit (Accepted (Suc 0)) (s0\<lparr>nextRef := Suc (Suc 0)\<rparr>)) = Reply m s1"
    by (simp add: runNow_body_def Let_def s0_def syn s1_def t_def)
  moreover have "ref t = Suc 0"
    by (simp add: t_def)
  ultimately have run: "execute c (Some (cb\<lparr>cb_onError := Some f\<rparr>)) s0 = onMessage m s1"
    by (simp add: execute_def run_def Let_def pick_def s0_def t_def [symmetric] runNow_Reply)
  define s2 where "s2 = callFn OnError (Some f) (MessageArg m) s1"
  have s1_fields: "lastTask s1 = Some t" "currentTask s1 = Some t" "tasks s1 = []"
    "contextTable s1 (Suc 0) = Some t"
    "invocations OnError (effects s1) = []" "invocations AfterRun (effects s1) = []"
    by (simp_all add: s1_def s0_def invocations_append split: option.split)
  have "deliver t (m\<lparr>msg_id := None, msg_end := False\<rparr>) s1 = Normal s2"
    by (simp add: deliver_def m_def emptyMessage_def s2_def t_def)
  then have "onMessage_body m s1 = finish t None False s2"
    using onMessage_body_result [of m s1 t s2]
    by (simp add: m_def emptyMessage_def truthy_def lookupTask_def s1_fields)
  moreover have "finish t None False s2
      = Routed (Normal (emit (Released (Suc 0) False) (s2\<lparr>currentTask := None\<rparr>)))"
    by (simp add: finish_def Let_def s2_def s1_fields) (simp add: t_def)
  ultimately have "onMessage m s1 = Normal (emit (Released (Suc 0) False) (s2\<lparr>currentTask := None\<rparr>))"
    by (simp add: onMessage_Routed)
  with run have final: "after [Execute c (Some (cb\<lparr>cb_onError := Some f\<rparr>))] s0
      = emit (Released (Suc 0) False) (s2\<lparr>currentTask := None\<rparr>)"
    by simp
  show ?thesis
    unfolding s0_def [symmetric] final
    by (simp add: s2_def s1_fields invocations_append) (simp add: t_def)
qed

subsection \<open>Restart\<close>

text \<open>
  Claim C7 fails on the code.  \<open>restart\<close> kills the session and, when the server has
  exited, runs the constructor again on \<open>this._config\<close> and calls \<open>restartCB\<close> with the exit
  code and the signal.  \<open>this._config\<close> holds \<open>cwd\<close> and \<open>stdio\<close> only: the working directory
  is kept, the transform hook is lost.
\<close>

theorem restart_drops_transpile:
  "transpile (newSession debug dict
       (Some \<lparr>cfg_cwd = Some d, cfg_transpile = Some f, cfg_stdio = None\<rparr>)) = Some f
   \<and> transpile (after [Restart signal restartCB, ServerExit exitCode exitSignal]
       (newSession debug dict
          (Some \<lparr>cfg_cwd = Some d, cfg_transpile = Some f, cfg_stdio = None\<rparr>))) = None
   \<and> cfg_cwd (config (after [Restart signal restartCB, ServerExit exitCode exitSignal]
       (newSession debug dict
          (Some \<lparr>cfg_cwd = Some d, cfg_transpile = Some f, cfg_stdio = None\<rparr>)))) = Some d
   \<and> killed (after [Restart signal restartCB, ServerExit exitCode exitSignal]
       (newSession debug dict
          (Some \<lparr>cfg_cwd = Some d, cfg_transpile = Some f, cfg_stdio = None\<rparr>))) = False
   \<and> invocations RestartCB (effects (after [Restart signal restartCB, ServerExit exitCode exitSignal]
       (newSession debug dict
          (Some \<lparr>cfg_cwd = Some d, cfg_transpile = Some f, cfg_stdio = None\<rparr>)))) =
       (case restartCB of None \<Rightarrow> [] | Some g \<Rightarrow> [(g, ExitArg exitCode exitSignal)])"
  by (simp add: restart_def killWith_def serverExit_def newSession_def Session_def Let_def
      emit_def callFn_def split: option.split)

subsection \<open>Invariants of the router and the scheduler\<close>

lemma onMessage_runNow_preserve:
  fixes M :: "message \<Rightarrow> bool" and I :: "session \<Rightarrow> bool" and J :: "task \<Rightarrow> session \<Rightarrow> bool"
  assumes routed: "\<And>m s r. M m \<Longrightarrow> I s \<Longrightarrow> onMessage_body m s = Routed r \<Longrightarrow> I (state_of r)"
      and nxt: "\<And>m s t s'. M m \<Longrightarrow> I s \<Longrightarrow> onMessage_body m s = Next t s' \<Longrightarrow> J t s'"
      and finished: "\<And>t s r. J t s \<Longrightarrow> runNow_body t s = Finished r \<Longrightarrow> I (state_of r)"
      and reply: "\<And>t s m s'. J t s \<Longrightarrow> runNow_body t s = Reply m s' \<Longrightarrow> M m \<and> I s'"
  shows "M m \<Longrightarrow> I s \<Longrightarrow> I (state_of (onMessage m s))"
    and "J t s' \<Longrightarrow> I (state_of (runNow t s'))"
proof (induction m s and t s' rule: onMessage_runNow.induct)
  case (1 m s)
  show ?case
  proof (cases "onMessage_body m s")
    case (Routed r)
    with routed [OF "1.prems" Routed] show ?thesis
      by (simp add: onMessage_Routed)
  next
    case (Next t s')
    from "1.IH" [OF Next nxt [OF "1.prems" Next]] show ?thesis
      by (simp add: onMessage_Next [OF Next])
  qed
next
  case (2 t s)
  show ?case
  proof (cases "runNow_body t s")
    case (Finished r)
    with finished [OF "2.prems" Finished] show ?thesis
      by (simp add: runNow_Finished)
  next
    case (Reply m s')
    from reply [OF "2.prems" Reply] have "M m" "I s'" by simp_all
    from "2.IH" [OF Reply this] show ?thesis
      by (simp add: runNow_Reply [OF Reply])
  qed
qed

lemma onMessage_body_cases [consumes 1, case_names Ignored Stdout Stderr Thrown Delivered]:
  assumes R: "onMessage_body m s = R"
  obtains "R = Routed (Normal s)"
  | t :: task and w where "msg_stdout m = Some w" "w \<noteq> []"
      "R = Routed (Normal (callFn OnStdout (onStdout t) (TextArg w) s))"
  | t :: task and w where "\<not> truthy (msg_stdout m)" "msg_stderr m = Some w" "w \<noteq> []"
      "R = Routed (Normal (callFn OnStderr (onStderr t) (TextArg w) s))"
  | t e s1 where "\<not> truthy (msg_stdout m)"
      "deliver t (m\<lparr>msg_id := None, msg_end := False\<rparr>) s = Throws e s1"
      "R = Routed (Throws e s1)"
  | t s1 where "\<not> truthy (msg_stdout m)"
      "deliver t (m\<lparr>msg_id := None, msg_end := False\<rparr>) s = Normal s1"
      "R = finish t (msg_id m) (msg_end m) s1"
proof (cases "truthy (msg_log m)")
  case True
  with R have "R = Routed (Normal s)" by (simp add: onMessage_body_def Let_def)
  then show ?thesis by (rule that(1))
next
  case nolog: False
  show ?thesis
  proof (cases "lookupTask (msg_id m) s")
    case None
    with nolog R have "R = Routed (Normal s)" by (simp add: onMessage_body_def Let_def)
    then show ?thesis by (rule that(1))
  next
    case (Some t)
    show ?thesis
    proof (cases "truthy (msg_stdout m)")
      case True
      then obtain w where w: "msg_stdout m = Some w" "w \<noteq> []"
        by (auto simp: truthy_def split: option.splits)
      with nolog Some True R
      have "R = Routed (Normal (callFn OnStdout (onStdout t) (TextArg w) s))"
        by (simp add: onMessage_body_def Let_def)
      with w show ?thesis by (rule that(2))
    next
      case noout: False
      show ?thesis
      proof (cases "truthy (msg_stderr m)")
        case True
        then obtain w where w: "msg_stderr m = Some w" "w \<noteq> []"
          by (auto simp: truthy_def split: option.splits)
        with nolog Some noout True R
        have "R = Routed (Normal (callFn OnStderr (onStderr t) (TextArg w) s))"
          by (simp add: onMessage_body_def Let_def)
        with noout w show ?thesis by (rule that(3))
      next
        case False
        with nolog Some noout R
        have body: "R =
            (case deliver t (m\<lparr>msg_id := None, msg_end := False\<rparr>) s of
               Throws e s1 \<Rightarrow> Routed (Throws e s1)
             | Normal s1 \<Rightarrow> finish t (msg_id m) (msg_end m) s1)"
          by (simp add: onMessage_body_def Let_def)
        show ?thesis
        proof (cases "deliver t (m\<lparr>msg_id := None, msg_end := False\<rparr>) s")
          case (Normal s1)
          with body have "R = finish t (msg_id m) (msg_end m) s1" by simp
          with noout Normal show ?thesis by (rule that(5))
        next
          case (Throws e s1)
          with body have "R = Routed (Throws e s1)" by simp
          with noout Throws show ?thesis by (rule that(4))
        qed
      qed
    qed
  qed
qed

lemma quiet_refl: "quiet s s"
  by (simp add: quiet_def)

lemma quiet_trans:
  assumes "quiet s s'" and "quiet s' s''"
  shows "quiet s s''"
proof -
  from assms obtain xs ys where "effects s' = effects s @ xs" "list_all callback xs"
    "effects s'' = effects s' @ ys" "list_all callback ys"
    by (auto simp: quiet_def)
  then have "effects s'' = effects s @ (xs @ ys) \<and> list_all callback (xs @ ys)"
    by simp
  then have "\<exists>zs. effects s'' = effects s @ zs \<and> list_all callback zs" ..
  moreover have "contextTable s'' i = None \<or> contextTable s'' i = contextTable s i" for i
  proof -
    from assms have "contextTable s' i = None \<or> contextTable s' i = contextTable s i"
      and "contextTable s'' i = None \<or> contextTable s'' i = contextTable s' i"
      by (simp_all add: quiet_def)
    then show ?thesis by auto
  qed
  ultimately show ?thesis
    using assms by (simp add: quiet_def)
qed

lemma quiet_callFn:
  "r = OnSuccess \<or> r = OnError \<or> r = AfterRun \<Longrightarrow> quiet s (callFn r f a s)"
  by (auto simp: quiet_def split: option.split)

lemma quiet_update:
  "quiet s (s\<lparr>matchList := ml\<rparr>)"
  "quiet s (s\<lparr>inspectionResult := ir\<rparr>)"
  "quiet s (s\<lparr>nextRef := n\<rparr>)"
  by (simp_all add: quiet_def)

lemma quiet_deleteContext: "quiet s (deleteContext i s)"
  by (simp add: deleteContext_def quiet_def split: option.split)

lemma quiet_emit_OnSuccess: "quiet s (emit (Invoked OnSuccess f a) s)"
  by (simp add: quiet_def)

lemma invokeOnSuccess_cases:
  assumes "invokeOnSuccess h m s = r"
  shows "quiet s (state_of r) \<or> (\<exists>t2 s1. quiet s s1 \<and> r = Normal (run_inspect t2 s1))"
proof (cases h)
  case (UserFn f)
  with assms show ?thesis by (auto simp: quiet_emit_OnSuccess)
next
  case (CompleteFn a c p cbs ex)
  with assms have "quiet s (state_of r)"
    by (auto simp: completeOnSuccess_def Let_def split: prod.splits sum.splits
        intro!: quiet_trans [OF quiet_update(1) quiet_callFn] quiet_update)
  then show ?thesis ..
next
  case (InspectFn a c p cbs ex)
  show ?thesis
  proof (cases "msg_inspection m")
    case None
    with assms InspectFn have "quiet s (state_of r)"
      by (auto simp: inspectOnSuccess_def quiet_update)
    then show ?thesis ..
  next
    case (Some i)
    show ?thesis
    proof (cases "scope ex = []")
      case True
      with assms InspectFn Some have "quiet s (state_of r)"
        by (auto simp: inspectOnSuccess_def Let_def
            intro!: quiet_trans [OF quiet_update(2) quiet_trans [OF quiet_callFn quiet_callFn]])
      then show ?thesis ..
    next
      case False
      with assms InspectFn Some
      obtain t2 s1 where "r = Normal (run_inspect t2 (s1\<lparr>nextRef := nextRef s1 + 1\<rparr>))"
        and "s1 = s\<lparr>inspectionResult := (inspectionResult s)(a := Some
            (m\<lparr>msg_inspection := Some (i\<lparr>insp_code := Some c, insp_cursorPos := Some p,
                             insp_matchedText := Some (matchedText ex)\<rparr>)\<rparr>))\<rparr>"
        by (auto simp: inspectOnSuccess_def Let_def)
      moreover from this have "quiet s (s1\<lparr>nextRef := nextRef s1 + 1\<rparr>)"
        by (simp add: quiet_def)
      ultimately show ?thesis by blast
    qed
  qed
next
  case (InspectDocFn a cbs ex)
  with assms have "quiet s (state_of r)"
    by (auto simp: inspectDocOnSuccess_def Let_def quiet_refl quiet_callFn
        split: option.splits
        intro!: quiet_trans [OF quiet_update(2) quiet_callFn])
  then show ?thesis ..
qed

lemma deliver_cases [consumes 1, case_names Quiet Submitted]:
  assumes "deliver t m s = r"
  obtains "quiet s (state_of r)"
  | t2 s1 where "quiet s s1" "r = Normal (run_inspect t2 s1)"
proof (cases "msg_error m")
  case (Some e)
  with assms have "quiet s (state_of r)"
    by (auto simp: deliver_def quiet_callFn)
  then show ?thesis by (rule that(1))
next
  case None
  show ?thesis
  proof (cases "onSuccess t")
    case None
    with assms \<open>msg_error m = None\<close> have "quiet s (state_of r)"
      by (auto simp: deliver_def quiet_refl)
    then show ?thesis by (rule that(1))
  next
    case (Some h)
    with assms \<open>msg_error m = None\<close> have "invokeOnSuccess h m s = r"
      by (simp add: deliver_def)
    from invokeOnSuccess_cases [OF this] show ?thesis
      using that by blast
  qed
qed

lemma finish_cases [consumes 1, case_names Unrelated Released Advance]:
  assumes "finish t i e s = R"
  obtains s1 where "quiet s s1" "R = Routed (Normal s1)"
  | s1 where "quiet s s1" "tasks s1 = []" "Some (ref t) = map_option ref (currentTask s1)"
      "R = Routed (Normal (emit (Released (ref t) e) (s1\<lparr>currentTask := None\<rparr>)))"
  | s1 t' rest where "quiet s s1" "tasks s1 = t' # rest"
      "Some (ref t) = map_option ref (currentTask s1)"
      "R = Next t' ((emit (Released (ref t) e) (s1\<lparr>currentTask := None\<rparr>))\<lparr>tasks := rest\<rparr>)"
proof -
  define s1 where "s1 = (if e then callFn AfterRun (afterRun t) NoArg (deleteContext i s) else s)"
  have q: "quiet s s1"
    by (auto simp: s1_def quiet_refl intro: quiet_trans [OF quiet_deleteContext quiet_callFn])
  show ?thesis
  proof (cases "Some (ref t) = map_option ref (currentTask s1)")
    case False
    with assms have "R = Routed (Normal s1)"
      by (simp add: finish_def Let_def s1_def)
    with q show ?thesis by (rule that(1))
  next
    case True
    show ?thesis
    proof (cases "tasks s1")
      case Nil
      with assms True
      have "R = Routed (Normal (emit (Released (ref t) e) (s1\<lparr>currentTask := None\<rparr>)))"
        by (simp add: finish_def Let_def s1_def)
      with q Nil True show ?thesis by (rule that(2))
    next
      case (Cons t' rest)
      with assms True
      have "R = Next t' ((emit (Released (ref t) e) (s1\<lparr>currentTask := None\<rparr>))\<lparr>tasks := rest\<rparr>)"
        by (simp add: finish_def Let_def s1_def)
      with q Cons True show ?thesis by (rule that(3))
    qed
  qed
qed

lemma occupant_append: "occupant cur (xs @ ys) = occupant (occupant cur xs) ys"
  by (induction cur xs rule: occupant.induct) auto

lemma oneAtATime_append:
  "oneAtATime cur (xs @ ys) \<longleftrightarrow> oneAtATime cur xs \<and> oneAtATime (occupant cur xs) ys"
  by (induction cur xs rule: oneAtATime.induct) auto

lemma lifetime_append:
  assumes "list_all (\<lambda>e. \<not> isForked e) xs"
  shows "lifetime (es @ xs) = lifetime es @ xs"
proof -
  have "takeWhile (\<lambda>e. \<not> isForked e) (rev xs @ rev es)
      = rev xs @ takeWhile (\<lambda>e. \<not> isForked e) (rev es)"
    by (rule takeWhile_append2) (use assms in \<open>auto simp: list_all_iff\<close>)
  then show ?thesis
    by (simp add: lifetime_def)
qed

lemma lifetime_Forked: "lifetime (es @ [Forked d io]) = []"
  by (simp add: lifetime_def)

lemma callback_not_Forked: "list_all callback xs \<Longrightarrow> list_all (\<lambda>e. \<not> isForked e) xs"
  by (induction xs rule: accepts.induct) auto

lemma callback_projections:
  "list_all callback xs \<Longrightarrow> accepts xs = []"
  "list_all callback xs \<Longrightarrow> dispatches xs = []"
  "list_all callback xs \<Longrightarrow> sends xs = []"
  "list_all callback xs \<Longrightarrow> invocations OnStdout xs = []"
  "list_all callback xs \<Longrightarrow> occupant cur xs = cur"
  "list_all callback xs \<Longrightarrow> oneAtATime cur xs"
  by (induction xs rule: accepts.induct) auto

lemma sentIds_append: "sentIds (xs @ ys) = sentIds xs @ sentIds ys"
  by (simp add: sentIds_def sends_append)

lemma Invoked_not_Forked [simp]:
  "list_all (\<lambda>e. \<not> isForked e) (case f of None \<Rightarrow> [] | Some g \<Rightarrow> [Invoked r g a])"
  by (simp split: option.split)

lemma projections_Invoked [simp]:
  "accepts (case f of None \<Rightarrow> [] | Some g \<Rightarrow> [Invoked r g a]) = []"
  "dispatches (case f of None \<Rightarrow> [] | Some g \<Rightarrow> [Invoked r g a]) = []"
  "sends (case f of None \<Rightarrow> [] | Some g \<Rightarrow> [Invoked r g a]) = []"
  "occupant cur (case f of None \<Rightarrow> [] | Some g \<Rightarrow> [Invoked r g a]) = cur"
  "oneAtATime cur (case f of None \<Rightarrow> [] | Some g \<Rightarrow> [Invoked r g a])"
  by (simp_all split: option.split)

lemma orderly_frame:
  assumes "orderly s"
    and "tasks s' = tasks s" "currentTask s' = currentTask s"
    and "lastContextId s' = lastContextId s"
    and "accepts (lifetime (effects s')) = accepts (lifetime (effects s))"
    and "dispatches (lifetime (effects s')) = dispatches (lifetime (effects s))"
    and "sentIds (lifetime (effects s')) = sentIds (lifetime (effects s))"
    and "oneAtATime None (lifetime (effects s')) = oneAtATime None (lifetime (effects s))"
    and "occupant None (lifetime (effects s')) = occupant None (lifetime (effects s))"
  shows "orderly s'"
  using assms by (simp add: orderly_def del: upt_Suc split: option.splits)

lemma ready_frame:
  assumes "ready t s"
    and "tasks s' = tasks s" "lastContextId s' = lastContextId s"
    and "accepts (lifetime (effects s')) = accepts (lifetime (effects s))"
    and "dispatches (lifetime (effects s')) = dispatches (lifetime (effects s))"
    and "sentIds (lifetime (effects s')) = sentIds (lifetime (effects s))"
    and "oneAtATime None (lifetime (effects s')) = oneAtATime None (lifetime (effects s))"
    and "occupant None (lifetime (effects s')) = occupant None (lifetime (effects s))"
  shows "ready t s'"
  using assms by (simp add: ready_def del: upt_Suc)

lemma orderly_quiet:
  assumes "orderly s" and "quiet s s'"
  shows "orderly s'"
proof -
  from \<open>quiet s s'\<close> obtain xs where xs: "effects s' = effects s @ xs" "list_all callback xs"
    and same: "tasks s' = tasks s" "currentTask s' = currentTask s"
      "lastContextId s' = lastContextId s"
    by (auto simp: quiet_def)
  from xs have L: "lifetime (effects s') = lifetime (effects s) @ xs"
    by (simp add: lifetime_append callback_not_Forked)
  show ?thesis
    using \<open>orderly s\<close> same
    by (rule orderly_frame)
       (simp_all add: L accepts_append dispatches_append sends_append sentIds_def
          occupant_append oneAtATime_append callback_projections [OF xs(2)])
qed

lemma orderly_callFn: "orderly s \<Longrightarrow> orderly (callFn r f a s)"
  by (erule orderly_frame)
     (simp_all add: lifetime_append accepts_append dispatches_append sentIds_append sentIds_def
        sends_append occupant_append oneAtATime_append)

lemma upt_from_1: "[1..<Suc (Suc n)] = [1..<Suc n] @ [Suc n]"
  by simp

lemma ready_dispatch:
  assumes "ready t s"
  shows "orderly (newContext t s)"
    and "ref t' = ref t \<Longrightarrow> orderly (send t' (newContext t s))"
    and "orderly (send (t\<lparr>code := c\<rparr>) (setCode c t (newContext t s)))"
proof -
  let ?L = "lifetime (effects s)"
  let ?n = "lastContextId s"
  from assms have
    D: "map snd (dispatches ?L) = [1..<Suc ?n]" and
    A: "accepts ?L = map fst (dispatches ?L) @ ref t # map ref (tasks s)" and
    S: "sorted_wrt (<) (0 # sentIds ?L @ [Suc ?n])" and
    O: "oneAtATime None ?L" "occupant None ?L = None"
    by (simp_all add: ready_def)
  from S have S1: "sorted_wrt (<) (0 # sentIds ?L @ [Suc (Suc ?n)])"
    and S2: "sorted_wrt (<) (0 # (sentIds ?L @ [Suc ?n]) @ [Suc (Suc ?n)])"
    by (auto simp: sorted_wrt_append)
  have new: "dispatches (lifetime (effects (newContext t s))) = dispatches ?L @ [(ref t, Suc ?n)]"
    "accepts (lifetime (effects (newContext t s))) = accepts ?L"
    "sentIds (lifetime (effects (newContext t s))) = sentIds ?L"
    "lastContextId (newContext t s) = Suc ?n"
    "oneAtATime None (lifetime (effects (newContext t s))) = (oneAtATime None ?L \<and> occupant None ?L = None)"
    "occupant None (lifetime (effects (newContext t s))) = Some (ref t)"
    "tasks (newContext t s) = tasks s"
    "currentTask (newContext t s) = Some t"
    by (simp_all add: lifetime_append accepts_append dispatches_append sentIds_append sentIds_def
        sends_append occupant_append oneAtATime_append)
  show "orderly (newContext t s)"
    unfolding orderly_def new upt_from_1
    using D A S1 O by simp
  have sent: "dispatches (lifetime (effects (send t' (newContext t s)))) = dispatches ?L @ [(ref t, Suc ?n)]"
    "accepts (lifetime (effects (send t' (newContext t s)))) = accepts ?L"
    "sentIds (lifetime (effects (send t' (newContext t s)))) = sentIds ?L @ [Suc ?n]"
    "lastContextId (send t' (newContext t s)) = Suc ?n"
    "oneAtATime None (lifetime (effects (send t' (newContext t s)))) = (oneAtATime None ?L \<and> occupant None ?L = None)"
    "occupant None (lifetime (effects (send t' (newContext t s)))) = Some (ref t)"
    "tasks (send t' (newContext t s)) = tasks s"
    "currentTask (send t' (newContext t s)) = Some t" for t'
    by (simp_all add: lifetime_append accepts_append dispatches_append sentIds_append sentIds_def
        sends_append occupant_append oneAtATime_append)
  show "orderly (send t' (newContext t s))" if "ref t' = ref t"
    unfolding orderly_def sent upt_from_1
    using D A S2 O by simp
  have coded: "dispatches (lifetime (effects (send t' (setCode c t (newContext t s))))) = dispatches ?L @ [(ref t, Suc ?n)]"
    "accepts (lifetime (effects (send t' (setCode c t (newContext t s))))) = accepts ?L"
    "sentIds (lifetime (effects (send t' (setCode c t (newContext t s))))) = sentIds ?L @ [Suc ?n]"
    "lastContextId (send t' (setCode c t (newContext t s))) = Suc ?n"
    "oneAtATime None (lifetime (effects (send t' (setCode c t (newContext t s))))) = (oneAtATime None ?L \<and> occupant None ?L = None)"
    "occupant None (lifetime (effects (send t' (setCode c t (newContext t s))))) = Some (ref t)"
    "tasks (send t' (setCode c t (newContext t s))) = tasks s"
    "currentTask (send t' (setCode c t (newContext t s))) = Some (t\<lparr>code := c\<rparr>)" for t'
    by (simp_all add: lifetime_append accepts_append dispatches_append sentIds_append sentIds_def
        sends_append setCode_def occupant_append oneAtATime_append)
  show "orderly (send (t\<lparr>code := c\<rparr>) (setCode c t (newContext t s)))"
    unfolding orderly_def coded upt_from_1
    using D A S2 O by simp
qed

lemma orderly_accept:
  assumes "orderly s" and "currentTask s = None"
  shows "ready t (emit (Accepted (ref t)) s)"
  using assms
  by (simp add: orderly_def ready_def lifetime_append accepts_append dispatches_append sends_append
      sentIds_def occupant_append oneAtATime_append del: upt_Suc)

lemma orderly_runLater:
  assumes "orderly s" and "currentTask s \<noteq> None"
  shows "orderly (runLater t (emit (Accepted (ref t)) s))"
  using assms
  by (auto simp: orderly_def runLater_def emit_def lifetime_append accepts_append dispatches_append
      sends_append sentIds_def occupant_append oneAtATime_append simp del: upt_Suc)

lemma orderly_run_inspect: "orderly s \<Longrightarrow> orderly (run_inspect t s)"
  by (simp add: run_inspect_def Let_def orderly_runLater ready_dispatch(2) [OF orderly_accept])

lemma orderly_release:
  "orderly s \<Longrightarrow> tasks s = [] \<Longrightarrow> Some r = map_option ref (currentTask s) \<Longrightarrow>
     orderly (emit (Released r e) (s\<lparr>currentTask := None\<rparr>))"
  by (simp add: orderly_def emit_def lifetime_append accepts_append dispatches_append sends_append
      sentIds_def occupant_append oneAtATime_append del: upt_Suc)

lemma orderly_advance:
  "orderly s \<Longrightarrow> tasks s = t # rest \<Longrightarrow> Some r = map_option ref (currentTask s) \<Longrightarrow>
     ready t ((emit (Released r e) (s\<lparr>currentTask := None\<rparr>))\<lparr>tasks := rest\<rparr>)"
  by (simp add: orderly_def ready_def emit_def lifetime_append accepts_append dispatches_append
      sends_append sentIds_def occupant_append oneAtATime_append del: upt_Suc)

lemma orderly_runNow_body:
  assumes "ready t s"
  shows "runNow_body t s = Finished r \<Longrightarrow> orderly (state_of r)"
    and "runNow_body t s = Reply m s' \<Longrightarrow> orderly s'"
  using ready_dispatch [OF assms]
  by (auto simp: runNow_body_def Let_def split: option.splits if_splits sum.splits)

lemma orderly_deliver:
  assumes "orderly s" and "deliver t m s = r"
  shows "orderly (state_of r)"
  using assms(2)
proof (cases rule: deliver_cases)
  case Quiet
  with assms(1) show ?thesis by (rule orderly_quiet)
next
  case (Submitted t2 s1)
  with assms(1) show ?thesis by (simp add: orderly_run_inspect orderly_quiet)
qed

lemma orderly_finish:
  assumes "orderly s"
  shows "finish t i e s = Routed r \<Longrightarrow> orderly (state_of r)"
    and "finish t i e s = Next t' s' \<Longrightarrow> ready t' s'"
proof -
  assume "finish t i e s = Routed r"
  then show "orderly (state_of r)"
    using assms by (cases rule: finish_cases) (auto intro: orderly_quiet orderly_release)
next
  assume "finish t i e s = Next t' s'"
  then show "ready t' s'"
    using assms by (cases rule: finish_cases) (auto intro: orderly_quiet orderly_advance)
qed

lemma orderly_onMessage_body:
  assumes "orderly s"
  shows "onMessage_body m s = Routed r \<Longrightarrow> orderly (state_of r)"
    and "onMessage_body m s = Next t' s' \<Longrightarrow> ready t' s'"
proof -
  assume "onMessage_body m s = Routed r"
  then show "orderly (state_of r)"
  proof (cases rule: onMessage_body_cases)
    case Ignored
    with assms show ?thesis by simp
  next
    case (Stdout t w)
    with assms show ?thesis by (simp add: orderly_callFn)
  next
    case (Stderr t w)
    with assms show ?thesis by (simp add: orderly_callFn)
  next
    case (Thrown t e s1)
    with orderly_deliver [OF assms Thrown(2)] show ?thesis by simp
  next
    case (Delivered t s1)
    from orderly_deliver [OF assms Delivered(2)] have "orderly s1" by simp
    from orderly_finish(1) [OF this Delivered(3) [symmetric]] show ?thesis .
  qed
next
  assume "onMessage_body m s = Next t' s'"
  then show "ready t' s'"
  proof (cases rule: onMessage_body_cases)
    case (Delivered t s1)
    from orderly_deliver [OF assms Delivered(2)] have "orderly s1" by simp
    from orderly_finish(2) [OF this Delivered(3) [symmetric]] show ?thesis .
  qed simp_all
qed

lemma orderly_onMessage:
  shows "orderly s \<Longrightarrow> orderly (state_of (onMessage m s))"
    and "ready t s' \<Longrightarrow> orderly (state_of (runNow t s'))"
proof -
  have *: "True \<Longrightarrow> orderly s \<Longrightarrow> orderly (state_of (onMessage m s))" for m s
    by (rule onMessage_runNow_preserve(1) [where M = "\<lambda>m. True" and J = ready])
       (auto intro: orderly_onMessage_body orderly_runNow_body)
  show "orderly s \<Longrightarrow> orderly (state_of (onMessage m s))"
    using * by simp
  show "ready t s' \<Longrightarrow> orderly (state_of (runNow t s'))"
    by (rule onMessage_runNow_preserve(2) [where M = "\<lambda>m. True" and I = orderly and J = ready])
       (auto intro: orderly_onMessage_body orderly_runNow_body)
qed

lemma orderly_run: "orderly s \<Longrightarrow> orderly (state_of (run t s))"
  by (simp add: run_def Let_def orderly_runLater orderly_onMessage(2) [OF orderly_accept])

lemma orderly_Session: "orderly (Session c s)"
  by (simp add: orderly_def Session_def Let_def emit_def lifetime_Forked sentIds_def)

lemma orderly_newSession: "orderly (newSession debug dict cfg)"
  by (simp add: newSession_def orderly_Session)

lemma orderly_killWith: "orderly s \<Longrightarrow> orderly (killWith signal l s)"
  by (erule orderly_frame)
     (simp_all add: killWith_def emit_def lifetime_append accepts_append dispatches_append
        sends_append sentIds_def occupant_append oneAtATime_append)

lemma orderly_serverExit: "orderly s \<Longrightarrow> orderly (serverExit c signal s)"
  by (simp add: serverExit_def orderly_callFn orderly_Session split: option.split exit_listener.split)

lemma orderly_step: "orderly s \<Longrightarrow> orderly (state_of (step ev s))"
proof (cases ev)
  case (Execute c cbs)
  assume "orderly s"
  then have "orderly (s\<lparr>nextRef := nextRef s + 1\<rparr>)"
    by (rule orderly_quiet) (simp add: quiet_update)
  with Execute show ?thesis
    by (simp add: execute_def orderly_run)
next
  case (Complete c p cbs)
  assume "orderly s"
  then have "orderly (s\<lparr>matchList := (matchList s)(nextRef s := []), nextRef := nextRef s + 1\<rparr>)"
    by (rule orderly_quiet) (simp add: quiet_def)
  with Complete \<open>orderly s\<close> show ?thesis
    by (simp add: complete_def orderly_run orderly_callFn split: option.split)
next
  case (InspectAt c p cbs)
  assume "orderly s"
  then have "orderly (s\<lparr>inspectionResult := (inspectionResult s)(nextRef s := None),
      nextRef := nextRef s + 1\<rparr>)"
    by (rule orderly_quiet) (simp add: quiet_def)
  with InspectAt \<open>orderly s\<close> show ?thesis
    by (simp add: inspect_def orderly_run orderly_callFn split: option.split)
next
  case (Receive m)
  assume "orderly s"
  with Receive show ?thesis
    by (simp add: orderly_onMessage(1))
next
  case (Kill signal f)
  assume "orderly s"
  with Kill show ?thesis
    by (simp add: kill_def orderly_killWith)
next
  case (Restart signal f)
  assume "orderly s"
  with Restart show ?thesis
    by (simp add: restart_def orderly_killWith)
next
  case (ServerExit c signal)
  assume "orderly s"
  with ServerExit show ?thesis
    by (simp add: orderly_serverExit)
qed

lemma orderly_after: "orderly s \<Longrightarrow> orderly (after evs s)"
  by (induction evs arbitrary: s) (simp_all add: orderly_step)

lemma tabled_more:
  assumes "tabled s"
    and "effects s' = effects s @ xs" "list_all (\<lambda>e. \<not> isForked e) xs"
    and "\<And>i. contextTable s' i = None \<or> contextTable s' i = contextTable s i
          \<or> (\<exists>t. contextTable s' i = Some t \<and> (ref t, i) \<in> set (dispatches xs))"
  shows "tabled s'"
proof -
  from assms(2,3) have L: "lifetime (effects s') = lifetime (effects s) @ xs"
    by (simp add: lifetime_append)
  show ?thesis
    unfolding tabled_def L dispatches_append
  proof (intro allI impI)
    fix i t
    assume t: "contextTable s' i = Some t"
    from assms(4) [of i] t
    consider "contextTable s i = Some t" | "(ref t, i) \<in> set (dispatches xs)"
      by auto
    then show "(ref t, i) \<in> set (dispatches (lifetime (effects s)) @ dispatches xs)"
    proof cases
      case 1
      with assms(1) show ?thesis by (simp add: tabled_def)
    next
      case 2
      then show ?thesis by simp
    qed
  qed
qed

lemma tabled_quiet:
  assumes "tabled s" and "quiet s s'"
  shows "tabled s'"
proof -
  from assms(2) obtain xs where xs: "effects s' = effects s @ xs" "list_all callback xs"
    and ct: "\<And>i. contextTable s' i = None \<or> contextTable s' i = contextTable s i"
    by (auto simp: quiet_def)
  from assms(1) xs(1) callback_not_Forked [OF xs(2)] show ?thesis
    by (rule tabled_more) (use ct in blast)
qed

lemma tabled_callFn: "tabled s \<Longrightarrow> tabled (callFn r f a s)"
  by (erule tabled_more [where xs = "case f of None \<Rightarrow> [] | Some g \<Rightarrow> [Invoked r g a]"]) simp_all

lemma tabled_newContext: "tabled s \<Longrightarrow> tabled (newContext t s)"
  by (erule tabled_more [where xs = "Dispatched (ref t) (Suc (lastContextId s))
        # (case beforeRun t of None \<Rightarrow> [] | Some g \<Rightarrow> [Invoked BeforeRun g NoArg])"])
     simp_all

lemma tabled_send: "tabled s \<Longrightarrow> tabled (send t s)"
  by (erule tabled_more [where xs = "[Sent (action t) (code t) (lastContextId s)]"]) simp_all

lemma tabled_setCode: "tabled s \<Longrightarrow> tabled (setCode c t (newContext t s))"
  by (erule tabled_more [where xs = "Dispatched (ref t) (Suc (lastContextId s))
        # (case beforeRun t of None \<Rightarrow> [] | Some g \<Rightarrow> [Invoked BeforeRun g NoArg])"])
     (simp_all add: setCode_def)

lemma tabled_runNow_body:
  assumes "tabled s"
  shows "runNow_body t s = Finished r \<Longrightarrow> tabled (state_of r)"
    and "runNow_body t s = Reply m s' \<Longrightarrow> tabled s'"
  using tabled_newContext [OF assms, of t] tabled_send [OF tabled_newContext [OF assms, of t]]
    tabled_send [OF tabled_setCode [OF assms]]
  by (auto simp: runNow_body_def Let_def split: option.splits if_splits sum.splits)

lemma tabled_accept: "tabled s \<Longrightarrow> tabled (emit (Accepted r) s)"
  by (erule tabled_more [where xs = "[Accepted r]"]) simp_all

lemma tabled_runLater: "tabled s \<Longrightarrow> tabled (runLater t s)"
  by (simp add: tabled_def runLater_def)

lemma tabled_run_inspect: "tabled s \<Longrightarrow> tabled (run_inspect t s)"
  by (simp add: run_inspect_def Let_def tabled_runLater tabled_accept tabled_send tabled_newContext)

lemma tabled_deliver:
  assumes "tabled s" and "deliver t m s = r"
  shows "tabled (state_of r)"
  using assms(2)
proof (cases rule: deliver_cases)
  case Quiet
  with assms(1) show ?thesis by (rule tabled_quiet)
next
  case (Submitted t2 s1)
  with assms(1) show ?thesis by (simp add: tabled_run_inspect tabled_quiet)
qed

lemma tabled_release:
  "tabled s \<Longrightarrow> tabled (emit (Released r e) (s\<lparr>currentTask := None\<rparr>))"
  "tabled s \<Longrightarrow> tabled ((emit (Released r e) (s\<lparr>currentTask := None\<rparr>))\<lparr>tasks := rest\<rparr>)"
  by (erule tabled_more [where xs = "[Released r e]"]; simp add: emit_def)+

lemma tabled_finish:
  assumes "tabled s"
  shows "finish t i e s = Routed r \<Longrightarrow> tabled (state_of r)"
    and "finish t i e s = Next t' s' \<Longrightarrow> tabled s'"
proof -
  assume "finish t i e s = Routed r"
  then show "tabled (state_of r)"
    using assms by (cases rule: finish_cases) (auto intro: tabled_quiet tabled_release)
next
  assume "finish t i e s = Next t' s'"
  then show "tabled s'"
    using assms by (cases rule: finish_cases) (auto intro: tabled_quiet tabled_release)
qed

lemma tabled_onMessage_body:
  assumes "tabled s"
  shows "onMessage_body m s = Routed r \<Longrightarrow> tabled (state_of r)"
    and "onMessage_body m s = Next t' s' \<Longrightarrow> tabled s'"
proof -
  assume "onMessage_body m s = Routed r"
  then show "tabled (state_of r)"
  proof (cases rule: onMessage_body_cases)
    case Ignored
    with assms show ?thesis by simp
  next
    case (Stdout t w)
    with assms show ?thesis by (simp add: tabled_callFn)
  next
    case (Stderr t w)
    with assms show ?thesis by (simp add: tabled_callFn)
  next
    case (Thrown t e s1)
    with tabled_deliver [OF assms Thrown(2)] show ?thesis by simp
  next
    case (Delivered t s1)
    from tabled_deliver [OF assms Delivered(2)] have "tabled s1" by simp
    from tabled_finish(1) [OF this Delivered(3) [symmetric]] show ?thesis .
  qed
next
  assume "onMessage_body m s = Next t' s'"
  then show "tabled s'"
  proof (cases rule: onMessage_body_cases)
    case (Delivered t s1)
    from tabled_deliver [OF assms Delivered(2)] have "tabled s1" by simp
    from tabled_finish(2) [OF this Delivered(3) [symmetric]] show ?thesis .
  qed simp_all
qed

lemma tabled_onMessage:
  shows "tabled s \<Longrightarrow> tabled (state_of (onMessage m s))"
    and "tabled s' \<Longrightarrow> tabled (state_of (runNow t s'))"
proof -
  have *: "True \<Longrightarrow> tabled s \<Longrightarrow> tabled (state_of (onMessage m s))" for m s
    by (rule onMessage_runNow_preserve(1) [where M = "\<lambda>m. True" and J = "\<lambda>t. tabled"])
       (auto intro: tabled_onMessage_body tabled_runNow_body)
  show "tabled s \<Longrightarrow> tabled (state_of (onMessage m s))"
    using * by simp
  show "tabled s' \<Longrightarrow> tabled (state_of (runNow t s'))"
    by (rule onMessage_runNow_preserve(2) [where M = "\<lambda>m. True" and I = tabled and J = "\<lambda>t. tabled"])
       (auto intro: tabled_onMessage_body tabled_runNow_body)
qed

lemma tabled_run: "tabled s \<Longrightarrow> tabled (state_of (run t s))"
  by (simp add: run_def Let_def tabled_runLater tabled_accept tabled_onMessage(2))

lemma tabled_Session: "tabled (Session c s)"
  by (simp add: tabled_def Session_def Let_def emit_def)

lemma tabled_newSession: "tabled (newSession debug dict cfg)"
  by (simp add: newSession_def tabled_Session)

lemma tabled_killWith: "tabled s \<Longrightarrow> tabled (killWith signal l s)"
  by (erule tabled_more [where xs = "[Signalled (orSIGTERM signal)]"])
     (simp_all add: killWith_def emit_def)

lemma tabled_serverExit: "tabled s \<Longrightarrow> tabled (serverExit c signal s)"
  by (simp add: serverExit_def tabled_callFn tabled_Session split: option.split exit_listener.split)

lemma tabled_update:
  "tabled s \<Longrightarrow> tabled (s\<lparr>nextRef := n\<rparr>)"
  "tabled s \<Longrightarrow> tabled (s\<lparr>matchList := ml, nextRef := n\<rparr>)"
  "tabled s \<Longrightarrow> tabled (s\<lparr>inspectionResult := ir, nextRef := n\<rparr>)"
  by (simp_all add: tabled_def)

lemma tabled_step: "tabled s \<Longrightarrow> tabled (state_of (step ev s))"
  by (cases ev)
     (simp_all add: execute_def complete_def inspect_def kill_def restart_def tabled_run
        tabled_update tabled_callFn tabled_onMessage(1) tabled_killWith tabled_serverExit
        split: option.split)

lemma tabled_after: "tabled s \<Longrightarrow> tabled (after evs s)"
  by (induction evs arbitrary: s) (simp_all add: tabled_step)


lemma runNow_body_allocates:
  "lastContextId (reached (runNow_body t s)) = Suc (lastContextId s)"
  "map_option ref (contextTable (reached (runNow_body t s)) (Suc (lastContextId s))) = Some (ref t)"
  "(contextTable (reached (runNow_body t s)))(Suc (lastContextId s) := None)
     = (contextTable s)(Suc (lastContextId s) := None)"
  "dispatches (effects (reached (runNow_body t s)))
     = dispatches (effects s) @ [(ref t, Suc (lastContextId s))]"
  by (simp_all add: runNow_body_def Let_def setCode_def dispatches_append
      split: option.split sum.split)

lemma runNow_body_sends:
  "sends (effects (reached (runNow_body t s))) = sends (effects s)
   \<or> (\<exists>c. sends (effects (reached (runNow_body t s)))
            = sends (effects s) @ [(action t, c, Suc (lastContextId s))])"
  "transpile s = None \<Longrightarrow>
     sends (effects (reached (runNow_body t s)))
       = sends (effects s) @ [(action t, code t, Suc (lastContextId s))]"
  by (simp_all add: runNow_body_def Let_def setCode_def sends_append
      split: option.split sum.split)

text \<open>
  Claim C2.  Every dispatch (\<open>_runNow\<close>, in any state) allocates the next context id: it
  raises \<open>_lastContextId\<close> by exactly 1, stores the task under the new id in the context
  table and leaves the other entries alone, and the message it sends to the server, if it
  sends one, carries the new id (with no transform hook it always sends the code of the
  task).  In every run of a session, the ids allocated since the session was constructed
  are, in the order of the dispatches, 1, 2, ... up to \<open>_lastContextId\<close>: the first dispatch
  gets 1, each later one the previous id plus 1, and no id is given twice; an entry of the
  context table holds the task that was dispatched under its id, and every id sent to the
  server is one of the ids allocated.  The lifetime of a session runs from its
  construction: \<open>restart\<close> constructs the session anew, with a new server, and its ids
  start again at 1.
\<close>

theorem context_ids_count_up:
  "lastContextId (reached (runNow_body t s)) = Suc (lastContextId s)
   \<and> map_option ref (contextTable (reached (runNow_body t s)) (Suc (lastContextId s))) = Some (ref t)
   \<and> (contextTable (reached (runNow_body t s)))(Suc (lastContextId s) := None)
       = (contextTable s)(Suc (lastContextId s) := None)
   \<and> dispatches (effects (reached (runNow_body t s)))
       = dispatches (effects s) @ [(ref t, Suc (lastContextId s))]
   \<and> (sends (effects (reached (runNow_body t s))) = sends (effects s)
      \<or> (\<exists>c. sends (effects (reached (runNow_body t s)))
               = sends (effects s) @ [(action t, c, Suc (lastContextId s))]))
   \<and> (transpile s = None \<longrightarrow>
        sends (effects (reached (runNow_body t s)))
          = sends (effects s) @ [(action t, code t, Suc (lastContextId s))])
   \<and> map snd (dispatches (lifetime (effects (after evs (newSession debug dict cfg)))))
       = [1..<Suc (lastContextId (after evs (newSession debug dict cfg)))]
   \<and> distinct (map snd (dispatches (lifetime (effects (after evs (newSession debug dict cfg))))))
   \<and> (\<forall>i t'. contextTable (after evs (newSession debug dict cfg)) i = Some t' \<longrightarrow>
          (ref t', i) \<in> set (dispatches (lifetime (effects (after evs (newSession debug dict cfg))))))
   \<and> set (sentIds (lifetime (effects (after evs (newSession debug dict cfg)))))
       \<subseteq> set (map snd (dispatches (lifetime (effects (after evs (newSession debug dict cfg))))))"
proof -
  let ?S = "after evs (newSession debug dict cfg)"
  have o: "orderly ?S"
    by (rule orderly_after [OF orderly_newSession])
  then have ids: "map snd (dispatches (lifetime (effects ?S))) = [1..<Suc (lastContextId ?S)]"
    and srt: "sorted_wrt (<) (0 # sentIds (lifetime (effects ?S)) @ [Suc (lastContextId ?S)])"
    by (simp_all add: orderly_def del: upt_Suc)
  from ids have dis: "distinct (map snd (dispatches (lifetime (effects ?S))))"
    by (simp del: upt_Suc)
  from srt have "set (sentIds (lifetime (effects ?S))) \<subseteq> {1..<Suc (lastContextId ?S)}"
    by (auto simp: sorted_wrt_append)
  with ids have sub: "set (sentIds (lifetime (effects ?S)))
      \<subseteq> set (map snd (dispatches (lifetime (effects ?S))))"
    by (simp del: upt_Suc)
  have "tabled ?S"
    by (rule tabled_after [OF tabled_newSession])
  then have tab: "\<forall>i t'. contextTable ?S i = Some t' \<longrightarrow>
      (ref t', i) \<in> set (dispatches (lifetime (effects ?S)))"
    by (simp add: tabled_def)
  from runNow_body_allocates [where t = t and s = s] runNow_body_sends [where t = t and s = s]
    ids dis tab sub
  show ?thesis
    by blast
qed

text \<open>
  A witness for C2: two tasks are submitted and the first one ends.  The table holds the
  second task under id 2, and a third dispatch gets id 3, which its message carries.
\<close>

theorem context_ids_count_up_witness:
  "transpile (after [Execute ''a'' None, Execute ''b'' None,
        Receive (emptyMessage\<lparr>msg_id := Some 1, msg_end := True,
                                msg_mime := Some [(''text/plain'', ''1'')]\<rparr>)]
       (newSession False (\<lambda>n. None) None)) = None
   \<and> sends (effects (after [Execute ''a'' None, Execute ''b'' None,
        Receive (emptyMessage\<lparr>msg_id := Some 1, msg_end := True,
                                msg_mime := Some [(''text/plain'', ''1'')]\<rparr>)]
       (newSession False (\<lambda>n. None) None))) = [(Run, ''a'', 1), (Run, ''b'', 2)]
   \<and> contextTable (after [Execute ''a'' None, Execute ''b'' None,
        Receive (emptyMessage\<lparr>msg_id := Some 1, msg_end := True,
                                msg_mime := Some [(''text/plain'', ''1'')]\<rparr>)]
       (newSession False (\<lambda>n. None) None)) 1 = None
   \<and> map_option ref (contextTable (after [Execute ''a'' None, Execute ''b'' None,
        Receive (emptyMessage\<lparr>msg_id := Some 1, msg_end := True,
                                msg_mime := Some [(''text/plain'', ''1'')]\<rparr>)]
       (newSession False (\<lambda>n. None) None)) 2) = Some 2
   \<and> (2, 2) \<in> set (dispatches (lifetime (effects (after [Execute ''a'' None, Execute ''b'' None,
        Receive (emptyMessage\<lparr>msg_id := Some 1, msg_end := True,
                                msg_mime := Some [(''text/plain'', ''1'')]\<rparr>)]
       (newSession False (\<lambda>n. None) None)))))
   \<and> lastContextId (reached (runNow_body
        \<lparr>ref = 3, action = Run, code = ''c'', onSuccess = None, onError = None,
         beforeRun = None, afterRun = None, onStdout = None, onStderr = None\<rparr>
        (after [Execute ''a'' None, Execute ''b'' None,
        Receive (emptyMessage\<lparr>msg_id := Some 1, msg_end := True,
                                msg_mime := Some [(''text/plain'', ''1'')]\<rparr>)]
       (newSession False (\<lambda>n. None) None)))) = 3
   \<and> sends (effects (reached (runNow_body
        \<lparr>ref = 3, action = Run, code = ''c'', onSuccess = None, onError = None,
         beforeRun = None, afterRun = None, onStdout = None, onStderr = None\<rparr>
        (after [Execute ''a'' None, Execute ''b'' None,
        Receive (emptyMessage\<lparr>msg_id := Some 1, msg_end := True,
                                msg_mime := Some [(''text/plain'', ''1'')]\<rparr>)]
       (newSession False (\<lambda>n. None) None))))) = [(Run, ''a'', 1), (Run, ''b'', 2), (Run, ''c'', 3)]"
proof -
  define S where "S = after [Execute ''a'' None, Execute ''b'' None,
        Receive (emptyMessage\<lparr>msg_id := Some 1, msg_end := True,
                                msg_mime := Some [(''text/plain'', ''1'')]\<rparr>)]
       (newSession False (\<lambda>n. None) None)"
  define t where "t = \<lparr>ref = 3, action = Run, code = ''c'', onSuccess = None, onError = None,
         beforeRun = None, afterRun = None, onStdout = None, onStderr = None\<rparr>"
  have S: "transpile S = None" "sends (effects S) = [(Run, ''a'', 1), (Run, ''b'', 2)]"
    "contextTable S 1 = None" "map_option ref (contextTable S 2) = Some 2"
    "lastContextId S = 2"
    unfolding S_def by code_simp+
  from S(4) obtain t' where t': "contextTable S 2 = Some t'" "ref t' = 2"
    by auto
  have t: "action t = Run" "code t = ''c''"
    by (simp_all add: t_def)
  note inst = context_ids_count_up [where t = t and s = S
      and evs = "[Execute ''a'' None, Execute ''b'' None,
        Receive (emptyMessage\<lparr>msg_id := Some 1, msg_end := True,
                                msg_mime := Some [(''text/plain'', ''1'')]\<rparr>)]"
      and debug = False and dict = "\<lambda>n. None" and cfg = None, folded S_def]
  from inst have "\<forall>i t'. contextTable S i = Some t' \<longrightarrow>
      (ref t', i) \<in> set (dispatches (lifetime (effects S)))"
    by (elim conjE)
  then have "contextTable S 2 = Some t' \<longrightarrow> (ref t', 2) \<in> set (dispatches (lifetime (effects S)))"
    by (elim allE)
  with t' have 1: "(2, 2) \<in> set (dispatches (lifetime (effects S)))"
    by simp
  from inst have "lastContextId (reached (runNow_body t S)) = Suc (lastContextId S)"
    by (elim conjE)
  with S(5) have 2: "lastContextId (reached (runNow_body t S)) = 3"
    by simp
  from inst have "transpile S = None \<longrightarrow>
        sends (effects (reached (runNow_body t S)))
          = sends (effects S) @ [(action t, code t, Suc (lastContextId S))]"
    by (elim conjE)
  with S(1,2,5) t have 3: "sends (effects (reached (runNow_body t S)))
      = [(Run, ''a'', 1), (Run, ''b'', 2), (Run, ''c'', 3)]"
    by simp
  from S 1 2 3 show ?thesis
    unfolding S_def t_def by simp
qed



subsection \<open>A message with an empty \<open>stdout\<close>\<close>

lemma calm_quiet:
  "quiet s s' \<Longrightarrow> invocations OnStdout (effects s') = invocations OnStdout (effects s)"
  by (auto simp: quiet_def invocations_append callback_projections)

lemma calm_run_inspect:
  "invocations OnStdout (effects (run_inspect t s)) = invocations OnStdout (effects s)"
  by (simp add: run_inspect_def Let_def runLater_def invocations_append split: option.split)

lemma calm_deliver:
  assumes "deliver t m s = r"
  shows "invocations OnStdout (effects (state_of r)) = invocations OnStdout (effects s)"
  using assms
  by (cases rule: deliver_cases) (auto simp: calm_quiet calm_run_inspect)

lemma calm_finish:
  shows "finish t i e s = Routed r \<Longrightarrow>
      invocations OnStdout (effects (state_of r)) = invocations OnStdout (effects s)"
    and "finish t i e s = Next t' s' \<Longrightarrow>
      invocations OnStdout (effects s') = invocations OnStdout (effects s)"
proof -
  assume "finish t i e s = Routed r"
  then show "invocations OnStdout (effects (state_of r)) = invocations OnStdout (effects s)"
    by (cases rule: finish_cases) (auto simp: calm_quiet invocations_append)
next
  assume "finish t i e s = Next t' s'"
  then show "invocations OnStdout (effects s') = invocations OnStdout (effects s)"
    by (cases rule: finish_cases) (auto simp: calm_quiet invocations_append emit_def)
qed

lemma calm_onMessage_body:
  assumes "\<not> truthy (msg_stdout m)"
  shows "onMessage_body m s = Routed r \<Longrightarrow>
      invocations OnStdout (effects (state_of r)) = invocations OnStdout (effects s)"
    and "onMessage_body m s = Next t' s' \<Longrightarrow>
      invocations OnStdout (effects s') = invocations OnStdout (effects s)"
proof -
  assume "onMessage_body m s = Routed r"
  then show "invocations OnStdout (effects (state_of r)) = invocations OnStdout (effects s)"
  proof (cases rule: onMessage_body_cases)
    case (Stdout t w)
    with assms show ?thesis by (simp add: truthy_def)
  next
    case (Stderr t w)
    then show ?thesis by (simp add: invocations_append split: option.split)
  next
    case (Thrown t e s1)
    with calm_deliver [OF Thrown(2)] show ?thesis by simp
  next
    case (Delivered t s1)
    with calm_deliver [OF Delivered(2)] calm_finish(1) [OF Delivered(3) [symmetric]]
    show ?thesis by simp
  qed simp
next
  assume "onMessage_body m s = Next t' s'"
  then show "invocations OnStdout (effects s') = invocations OnStdout (effects s)"
  proof (cases rule: onMessage_body_cases)
    case (Delivered t s1)
    with calm_deliver [OF Delivered(2)] calm_finish(2) [OF Delivered(3) [symmetric]]
    show ?thesis by simp
  qed simp_all
qed

lemma synthesize_no_stdout: "synthesize v = Inr m \<Longrightarrow> \<not> truthy (msg_stdout m)"
  by (auto simp: synthesize_def Let_def emptyMessage_def truthy_def split: option.splits)

lemma calm_runNow_body:
  shows "runNow_body t s = Finished r \<Longrightarrow>
      invocations OnStdout (effects (state_of r)) = invocations OnStdout (effects s)"
    and "runNow_body t s = Reply m s' \<Longrightarrow>
      \<not> truthy (msg_stdout m) \<and> invocations OnStdout (effects s') = invocations OnStdout (effects s)"
  by (auto simp: runNow_body_def Let_def invocations_append setCode_def send_def emit_def
      synthesize_no_stdout split: option.splits if_splits sum.splits)

lemma calm_onMessage:
  assumes "\<not> truthy (msg_stdout m)"
  shows "invocations OnStdout (effects (state_of (onMessage m s))) = invocations OnStdout (effects s)"
proof -
  define X where "X = invocations OnStdout (effects s)"
  have "invocations OnStdout (effects (state_of (onMessage m s))) = X"
  proof (rule onMessage_runNow_preserve(1)
      [where M = "\<lambda>m. \<not> truthy (msg_stdout m)"
         and I = "\<lambda>s. invocations OnStdout (effects s) = X"
         and J = "\<lambda>t s. invocations OnStdout (effects s) = X"])
    show "\<not> truthy (msg_stdout m)" by (rule assms)
    show "invocations OnStdout (effects s) = X" by (simp add: X_def)
  qed (auto simp: calm_onMessage_body calm_runNow_body)
  then show ?thesis by (simp add: X_def)
qed

lemma grown_refl: "grown (effects s) s"
  by (simp add: grown_def)

lemma grown_step: "grown es s \<Longrightarrow> grown (effects s) s' \<Longrightarrow> grown es s'"
  by (auto simp: grown_def)

lemma grown_quiet: "quiet s s' \<Longrightarrow> grown (effects s) s'"
  by (auto simp: grown_def quiet_def)

lemma grown_run_inspect: "grown (effects s) (run_inspect t s)"
  by (simp add: grown_def run_inspect_def Let_def runLater_def split: option.split)

lemma grown_deliver:
  assumes "deliver t m s = r"
  shows "grown (effects s) (state_of r)"
  using assms
proof (cases rule: deliver_cases)
  case Quiet
  then show ?thesis by (rule grown_quiet)
next
  case (Submitted t2 s1)
  from grown_step [OF grown_quiet [OF Submitted(1)] grown_run_inspect [of s1 t2]] Submitted(2)
  show ?thesis by simp
qed

lemma grown_finish:
  shows "finish t i e s = Routed r \<Longrightarrow> grown (effects s) (state_of r)"
    and "finish t i e s = Next t' s' \<Longrightarrow> grown (effects s) s'"
proof -
  assume "finish t i e s = Routed r"
  then show "grown (effects s) (state_of r)"
    by (cases rule: finish_cases) (auto simp: grown_def quiet_def)
next
  assume "finish t i e s = Next t' s'"
  then show "grown (effects s) s'"
    by (cases rule: finish_cases) (auto simp: grown_def quiet_def emit_def)
qed

lemma grown_onMessage_body:
  shows "onMessage_body m s = Routed r \<Longrightarrow> grown (effects s) (state_of r)"
    and "onMessage_body m s = Next t' s' \<Longrightarrow> grown (effects s) s'"
proof -
  assume "onMessage_body m s = Routed r"
  then show "grown (effects s) (state_of r)"
  proof (cases rule: onMessage_body_cases)
    case (Thrown t e s1)
    with grown_deliver [OF Thrown(2)] show ?thesis by simp
  next
    case (Delivered t s1)
    from grown_deliver [OF Delivered(2)] grown_finish(1) [OF Delivered(3) [symmetric]]
    show ?thesis by (auto intro: grown_step)
  qed (simp_all add: grown_def)
next
  assume "onMessage_body m s = Next t' s'"
  then show "grown (effects s) s'"
  proof (cases rule: onMessage_body_cases)
    case (Delivered t s1)
    from grown_deliver [OF Delivered(2)] grown_finish(2) [OF Delivered(3) [symmetric]]
    show ?thesis by (auto intro: grown_step)
  qed simp_all
qed

lemma grown_runNow_body:
  shows "runNow_body t s = Finished r \<Longrightarrow> grown (effects s) (state_of r)"
    and "runNow_body t s = Reply m s' \<Longrightarrow> grown (effects s) s'"
  by (auto simp: grown_def runNow_body_def Let_def setCode_def send_def emit_def
      split: option.splits if_splits sum.splits)

lemma grown_onMessage:
  shows "grown (effects s) (state_of (onMessage m s))"
    and "grown (effects s) (state_of (runNow t s))"
proof -
  define X where "X = effects s"
  have "grown X (state_of (onMessage m s))"
  proof (rule onMessage_runNow_preserve(1)
      [where M = "\<lambda>m. True" and I = "grown X" and J = "\<lambda>t. grown X"])
    show "grown X s" by (simp add: X_def grown_def)
  qed (auto intro: grown_step grown_onMessage_body grown_runNow_body)
  then show "grown (effects s) (state_of (onMessage m s))" by (simp add: X_def)
  have "grown X (state_of (runNow t s))"
  proof (rule onMessage_runNow_preserve(2)
      [where M = "\<lambda>m. True" and I = "grown X" and J = "\<lambda>t. grown X"])
    show "grown X s" by (simp add: X_def grown_def)
  qed (auto intro: grown_step grown_onMessage_body grown_runNow_body)
  then show "grown (effects s) (state_of (runNow t s))" by (simp add: X_def)
qed


lemma failing_onMessage_body:
  assumes "msg_error m \<noteq> None"
  shows "onMessage_body m s = Routed r \<Longrightarrow>
      invocations OnSuccess (effects (state_of r)) = invocations OnSuccess (effects s)"
    and "onMessage_body m s = Next t' s' \<Longrightarrow>
      invocations OnSuccess (effects s') = invocations OnSuccess (effects s)"
  using assms
  by (auto simp: onMessage_body_def deliver_def finish_def Let_def invocations_append emit_def
      split: option.splits if_splits list.splits)

lemma failing_runNow_body:
  shows "runNow_body t s = Finished r \<Longrightarrow>
      invocations OnSuccess (effects (state_of r)) = invocations OnSuccess (effects s)"
    and "runNow_body t s = Reply m s' \<Longrightarrow>
      msg_error m \<noteq> None \<and> invocations OnSuccess (effects s') = invocations OnSuccess (effects s)"
  by (auto simp: runNow_body_def Let_def invocations_append setCode_def send_def emit_def
      split: option.splits if_splits sum.splits dest: synthesize_error)

lemma failing_onMessage:
  assumes "msg_error m \<noteq> None"
  shows "invocations OnSuccess (effects (state_of (onMessage m s))) = invocations OnSuccess (effects s)"
proof -
  define X where "X = invocations OnSuccess (effects s)"
  have "invocations OnSuccess (effects (state_of (onMessage m s))) = X"
  proof (rule onMessage_runNow_preserve(1)
      [where M = "\<lambda>m. msg_error m \<noteq> None"
         and I = "\<lambda>s. invocations OnSuccess (effects s) = X"
         and J = "\<lambda>t s. invocations OnSuccess (effects s) = X"])
    show "msg_error m \<noteq> None" by (rule assms)
    show "invocations OnSuccess (effects s) = X" by (simp add: X_def)
  qed (auto simp: failing_onMessage_body failing_runNow_body)
  then show ?thesis by (simp add: X_def)
qed

lemma onMessage_after_deliver:
  assumes "\<not> truthy (msg_log m)" "\<not> truthy (msg_stdout m)" "\<not> truthy (msg_stderr m)"
    and "lookupTask (msg_id m) s = Some t"
  shows "grown (effects (state_of (deliver t (m\<lparr>msg_id := None, msg_end := False\<rparr>) s)))
           (state_of (onMessage m s))"
proof (cases "deliver t (m\<lparr>msg_id := None, msg_end := False\<rparr>) s")
  case (Throws e s1)
  with assms have "onMessage_body m s = Routed (Throws e s1)"
    by (simp add: onMessage_body_def Let_def)
  from onMessage_Routed [OF this] Throws show ?thesis
    by (simp add: grown_def)
next
  case (Normal s1)
  with assms have body: "onMessage_body m s = finish t (msg_id m) (msg_end m) s1"
    by (simp add: onMessage_body_def Let_def)
  show ?thesis
  proof (cases "finish t (msg_id m) (msg_end m) s1")
    case (Routed r)
    with body onMessage_Routed [of m s r] grown_finish(1) [OF Routed] Normal
    show ?thesis by simp
  next
    case (Next t' s')
    with body have "onMessage m s = runNow t' s'"
      by (simp add: onMessage_Next)
    with grown_step [OF grown_finish(2) [OF Next] grown_onMessage(2) [of s' t']] Normal
    show ?thesis by simp
  qed
qed

text \<open>
  Claim C8, as amended.  Routing a message whose \<open>stdout\<close> is present and empty never calls
  an \<open>onStdout\<close> function, whatever else the message carries and whatever task is
  dispatched next.  When the message is not a log message, carries no \<open>stderr\<close> payload and
  a task owns it, it is routed as an error or success message, stripped of its id and
  end flag: if it carries an error, the first thing the router does is to call the
  \<open>onError\<close> of the task with it, and no \<open>onSuccess\<close> is called; if it carries none, the
  first thing it does is to call the \<open>onSuccess\<close> of the task with it (for \<open>complete\<close> and
  \<open>inspect\<close> that is their closure).  When it carries a non-empty \<open>stderr\<close> instead, the
  \<open>onStderr\<close> of the task is called with the payload and nothing else happens.
\<close>

theorem empty_stdout_is_routed_as_a_result:
  "msg_stdout m = Some [] \<Longrightarrow>
     invocations OnStdout (effects (state_of (onMessage m s))) = invocations OnStdout (effects s)
     \<and> (\<not> truthy (msg_log m) \<and> \<not> truthy (msg_stderr m) \<and> lookupTask (msg_id m) s = Some t \<longrightarrow>
          (msg_error m \<noteq> None \<and> onError t = Some f \<longrightarrow>
             (\<exists>rest. effects (state_of (onMessage m s)) =
                 effects s @ Invoked OnError f (MessageArg (m\<lparr>msg_id := None, msg_end := False\<rparr>)) # rest)
             \<and> invocations OnSuccess (effects (state_of (onMessage m s)))
                 = invocations OnSuccess (effects s))
          \<and> (msg_error m = None \<and> onSuccess t = Some (UserFn f) \<longrightarrow>
             (\<exists>rest. effects (state_of (onMessage m s)) =
                 effects s @ Invoked OnSuccess f (MessageArg (m\<lparr>msg_id := None, msg_end := False\<rparr>)) # rest))
          \<and> (msg_error m = None \<and> onSuccess t = Some h \<longrightarrow>
             (\<exists>rest. effects (state_of (onMessage m s)) =
                 effects (state_of (invokeOnSuccess h (m\<lparr>msg_id := None, msg_end := False\<rparr>) s)) @ rest)))
     \<and> (\<not> truthy (msg_log m) \<and> msg_stderr m = Some w \<and> w \<noteq> [] \<and> lookupTask (msg_id m) s = Some t
          \<and> onStderr t = Some g \<longrightarrow>
            effects (state_of (onMessage m s)) = effects s @ [Invoked OnStderr g (TextArg w)])"
proof -
  assume e: "msg_stdout m = Some []"
  then have noout: "\<not> truthy (msg_stdout m)" by (simp add: truthy_def)
  let ?m = "m\<lparr>msg_id := None, msg_end := False\<rparr>"
  have a: "invocations OnStdout (effects (state_of (onMessage m s))) = invocations OnStdout (effects s)"
    by (rule calm_onMessage [OF noout])
  have b: "(\<exists>rest. effects (state_of (onMessage m s)) = effects s @ Invoked OnError f (MessageArg ?m) # rest)
      \<and> invocations OnSuccess (effects (state_of (onMessage m s))) = invocations OnSuccess (effects s)"
    if "\<not> truthy (msg_log m)" "\<not> truthy (msg_stderr m)" "lookupTask (msg_id m) s = Some t"
      "msg_error m \<noteq> None" "onError t = Some f"
  proof -
    from that have "deliver t ?m s = Normal (emit (Invoked OnError f (MessageArg ?m)) s)"
      by (auto simp: deliver_def callFn_def)
    with onMessage_after_deliver [OF that(1) noout that(2,3)]
    have "\<exists>rest. effects (state_of (onMessage m s)) = effects s @ Invoked OnError f (MessageArg ?m) # rest"
      by (simp add: grown_def)
    with failing_onMessage [OF that(4), of s] show ?thesis by simp
  qed
  have c: "\<exists>rest. effects (state_of (onMessage m s)) =
      effects (state_of (invokeOnSuccess h' ?m s)) @ rest"
    if "\<not> truthy (msg_log m)" "\<not> truthy (msg_stderr m)" "lookupTask (msg_id m) s = Some t"
      "msg_error m = None" "onSuccess t = Some h'" for h'
  proof -
    from that have "deliver t ?m s = invokeOnSuccess h' ?m s"
      by (simp add: deliver_def)
    with onMessage_after_deliver [OF that(1) noout that(2,3)]
    show ?thesis by (simp add: grown_def)
  qed
  have d: "effects (state_of (onMessage m s)) = effects s @ [Invoked OnStderr g (TextArg w)]"
    if "\<not> truthy (msg_log m)" "msg_stderr m = Some w" "w \<noteq> []" "lookupTask (msg_id m) s = Some t"
      "onStderr t = Some g"
  proof -
    from that noout
    have "onMessage_body m s = Routed (Normal (emit (Invoked OnStderr g (TextArg w)) s))"
      by (simp add: onMessage_body_def Let_def truthy_def callFn_def)
    from onMessage_Routed [OF this] show ?thesis by simp
  qed
  from a b c [of h] c [of "UserFn f"] d show ?thesis
    by simp
qed

text \<open>
  Claim C8 as stated fails: a message with an empty \<open>stdout\<close> and the \<open>stderr\<close> payload \<open>e\<close>
  is a streaming message.  The router calls \<open>onStderr\<close> and returns; neither \<open>onError\<close> nor
  \<open>onSuccess\<close> is called.
\<close>

theorem empty_stdout_with_stderr_is_streamed:
  "msg_stdout (emptyMessage\<lparr>msg_id := Some 1, msg_stdout := Some [], msg_stderr := Some ''e''\<rparr>) = Some []
   \<and> map_option ref (lookupTask (Some 1)
        (after [Execute ''1'' (Some \<lparr>cb_onSuccess = Some 10, cb_onError = Some 11,
                   cb_beforeRun = None, cb_afterRun = None,
                   cb_onStdout = Some 14, cb_onStderr = Some 15\<rparr>)]
           (newSession False (\<lambda>n. None) None))) = Some 1
   \<and> invocations OnStderr (effects (state_of
        (onMessage (emptyMessage\<lparr>msg_id := Some 1, msg_stdout := Some [], msg_stderr := Some ''e''\<rparr>)
          (after [Execute ''1'' (Some \<lparr>cb_onSuccess = Some 10, cb_onError = Some 11,
                   cb_beforeRun = None, cb_afterRun = None,
                   cb_onStdout = Some 14, cb_onStderr = Some 15\<rparr>)]
             (newSession False (\<lambda>n. None) None))))) = [(15, TextArg ''e'')]
   \<and> invocations OnError (effects (state_of
        (onMessage (emptyMessage\<lparr>msg_id := Some 1, msg_stdout := Some [], msg_stderr := Some ''e''\<rparr>)
          (after [Execute ''1'' (Some \<lparr>cb_onSuccess = Some 10, cb_onError = Some 11,
                   cb_beforeRun = None, cb_afterRun = None,
                   cb_onStdout = Some 14, cb_onStderr = Some 15\<rparr>)]
             (newSession False (\<lambda>n. None) None))))) = []
   \<and> invocations OnSuccess (effects (state_of
        (onMessage (emptyMessage\<lparr>msg_id := Some 1, msg_stdout := Some [], msg_stderr := Some ''e''\<rparr>)
          (after [Execute ''1'' (Some \<lparr>cb_onSuccess = Some 10, cb_onError = Some 11,
                   cb_beforeRun = None, cb_afterRun = None,
                   cb_onStdout = Some 14, cb_onStderr = Some 15\<rparr>)]
             (newSession False (\<lambda>n. None) None))))) = []"
  by code_simp

text \<open>
  A witness for C8: an empty \<open>stdout\<close> with the end flag for the running task, once with
  an error and once without.  \<open>onError\<close>, respectively \<open>onSuccess\<close>, is called with the
  message, \<open>onStdout\<close> is not.
\<close>

theorem empty_stdout_is_routed_as_a_result_witness:
  "(\<exists>rest. effects (state_of
        (onMessage (emptyMessage\<lparr>msg_id := Some 1, msg_end := True, msg_stdout := Some [],
                      msg_error := Some \<lparr>ename = ''Error'', evalue = ''boom'', traceback = TracebackLines []\<rparr>\<rparr>)
          (after [Execute ''1'' (Some \<lparr>cb_onSuccess = Some 10, cb_onError = Some 11,
                   cb_beforeRun = None, cb_afterRun = None,
                   cb_onStdout = Some 14, cb_onStderr = Some 15\<rparr>)]
             (newSession False (\<lambda>n. None) None)))) =
      effects (after [Execute ''1'' (Some \<lparr>cb_onSuccess = Some 10, cb_onError = Some 11,
                   cb_beforeRun = None, cb_afterRun = None,
                   cb_onStdout = Some 14, cb_onStderr = Some 15\<rparr>)]
             (newSession False (\<lambda>n. None) None))
      @ Invoked OnError 11 (MessageArg (emptyMessage\<lparr>msg_stdout := Some [],
            msg_error := Some \<lparr>ename = ''Error'', evalue = ''boom'', traceback = TracebackLines []\<rparr>\<rparr>))
        # rest)
   \<and> (\<exists>rest. effects (state_of
        (onMessage (emptyMessage\<lparr>msg_id := Some 1, msg_end := True, msg_stdout := Some []\<rparr>)
          (after [Execute ''1'' (Some \<lparr>cb_onSuccess = Some 10, cb_onError = Some 11,
                   cb_beforeRun = None, cb_afterRun = None,
                   cb_onStdout = Some 14, cb_onStderr = Some 15\<rparr>)]
             (newSession False (\<lambda>n. None) None)))) =
      effects (after [Execute ''1'' (Some \<lparr>cb_onSuccess = Some 10, cb_onError = Some 11,
                   cb_beforeRun = None, cb_afterRun = None,
                   cb_onStdout = Some 14, cb_onStderr = Some 15\<rparr>)]
             (newSession False (\<lambda>n. None) None))
      @ Invoked OnSuccess 10 (MessageArg (emptyMessage\<lparr>msg_stdout := Some []\<rparr>)) # rest)
   \<and> invocations OnStdout (effects (state_of
        (onMessage (emptyMessage\<lparr>msg_id := Some 1, msg_end := True, msg_stdout := Some []\<rparr>)
          (after [Execute ''1'' (Some \<lparr>cb_onSuccess = Some 10, cb_onError = Some 11,
                   cb_beforeRun = None, cb_afterRun = None,
                   cb_onStdout = Some 14, cb_onStderr = Some 15\<rparr>)]
             (newSession False (\<lambda>n. None) None))))) = []"
proof -
  let ?err = "\<lparr>ename = ''Error'', evalue = ''boom'', traceback = TracebackLines []\<rparr>"
  let ?e = "emptyMessage\<lparr>msg_id := Some 1, msg_end := True, msg_stdout := Some [],
                      msg_error := Some ?err\<rparr>"
  let ?m = "emptyMessage\<lparr>msg_id := Some 1, msg_end := True, msg_stdout := Some []\<rparr>"
  let ?s = "after [Execute ''1'' (Some \<lparr>cb_onSuccess = Some 10, cb_onError = Some 11,
                   cb_beforeRun = None, cb_afterRun = None,
                   cb_onStdout = Some 14, cb_onStderr = Some 15\<rparr>)]
             (newSession False (\<lambda>n. None) None)"
  let ?t = "\<lparr>ref = 1, action = Run, code = ''1'', onSuccess = Some (UserFn 10),
             onError = Some 11, beforeRun = None, afterRun = None,
             onStdout = Some 14, onStderr = Some 15\<rparr>"
  have e: "msg_stdout ?e = Some []" "\<not> truthy (msg_log ?e)" "\<not> truthy (msg_stderr ?e)"
    "msg_error ?e \<noteq> None" "msg_id ?e = Some 1"
    "?e\<lparr>msg_id := None, msg_end := False\<rparr> = emptyMessage\<lparr>msg_stdout := Some [], msg_error := Some ?err\<rparr>"
    by (simp_all add: emptyMessage_def truthy_def)
  have m: "msg_stdout ?m = Some []" "\<not> truthy (msg_log ?m)" "\<not> truthy (msg_stderr ?m)"
    "msg_error ?m = None" "msg_id ?m = Some 1"
    "?m\<lparr>msg_id := None, msg_end := False\<rparr> = emptyMessage\<lparr>msg_stdout := Some []\<rparr>"
    by (simp_all add: emptyMessage_def truthy_def)
  have t: "lookupTask (Some 1) ?s = Some ?t"
    by code_simp
  have before: "invocations OnStdout (effects ?s) = []"
    by code_simp
  have f: "onError ?t = Some 11" "onSuccess ?t = Some (UserFn 10)"
    by simp_all
  from empty_stdout_is_routed_as_a_result [OF e(1), of ?s ?t 11 "UserFn 10" "[]" 15] e t f
  have 1: "\<exists>rest. effects (state_of (onMessage ?e ?s)) =
      effects ?s @ Invoked OnError 11 (MessageArg (emptyMessage\<lparr>msg_stdout := Some [], msg_error := Some ?err\<rparr>)) # rest"
    by simp
  from empty_stdout_is_routed_as_a_result [OF m(1), of ?s ?t 10 "UserFn 10" "[]" 15] m t f before
  have 2: "(\<exists>rest. effects (state_of (onMessage ?m ?s)) =
      effects ?s @ Invoked OnSuccess 10 (MessageArg (emptyMessage\<lparr>msg_stdout := Some []\<rparr>)) # rest)
    \<and> invocations OnStdout (effects (state_of (onMessage ?m ?s))) = []"
    by simp
  from 1 2 show ?thesis
    by blast
qed

end
